theory Spec2Isabelle
  imports Complex_Main "HOL-Library.Log_Nat"
begin

section \<open>Python values and failures\<close>

text \<open>
  The source is a single Python script, \<^verbatim>\<open>frame_structure.py\<close>: three helper functions
  (\<^verbatim>\<open>get_slot_params\<close>, \<^verbatim>\<open>create_dmrs_pattern\<close>, \<^verbatim>\<open>create_pdcch_region\<close>) and one block
  of top-level code per page of the application. Python integers are \<^typ>\<open>int\<close>. A float is
  modelled by the rational number that is its value. The slot durations are \<open>1 / 2 ^ \<mu>\<close>
  and the periodicities offered by the page are dyadic, so the one float division whose
  result is truncated is exact and is written as a division of rationals. The percentages
  of the TDD page are rounded as binary64 floats are (\<open>py_float\<close> below). The exceptions
  that the modelled code can raise are values of \<open>py_error\<close>, and a computation that can
  raise returns \<open>py_error + 'a\<close>.
\<close>

datatype py_error =
    KeyError int
  | ValueError
  | IndexError int
  | ZeroDivisionError

section \<open>Helper function \<^verbatim>\<open>get_slot_params\<close>\<close>

record slot_params =
  mu :: int
  slot_duration_ms :: rat
  slots_per_subframe :: int
  slots_per_frame :: int
  symbols_per_slot :: int

definition mu_map :: "int \<rightharpoonup> int" where
  "mu_map = [15 \<mapsto> 0, 30 \<mapsto> 1, 60 \<mapsto> 2, 120 \<mapsto> 3, 240 \<mapsto> 4]"

text \<open>
  \<^verbatim>\<open>mu = mu_map[scs_khz]\<close> raises \<^verbatim>\<open>KeyError(scs_khz)\<close> for a key that is not in the
  dictionary. Every value of the dictionary is non-negative, so \<^verbatim>\<open>2**mu\<close> is an integer.
\<close>

definition get_slot_params :: "int \<Rightarrow> py_error + slot_params" where
  "get_slot_params scs_khz =
     (case mu_map scs_khz of
        None \<Rightarrow> Inl (KeyError scs_khz)
      | Some m \<Rightarrow>
          (let slot_duration = 1 / (2 ^ nat m);
               per_subframe = 2 ^ nat m;
               per_frame = 10 * per_subframe
           in Inr \<lparr>mu = m,
                   slot_duration_ms = slot_duration,
                   slots_per_subframe = per_subframe,
                   slots_per_frame = per_frame,
                   symbols_per_slot = 14\<rparr>))"

section \<open>Arrays\<close>

text \<open>
  A two-dimensional numpy array is a list of rows, each a list of cells. The masks hold the
  integers 0 and 1; the allocation array holds 0 (empty), 1 (PDSCH), 2 (PDCCH) and
  3 (DMRS), which numpy stores as floats that represent these integers exactly.
\<close>

type_synonym grid = "int list list"

text \<open>\<^verbatim>\<open>np.zeros((rows, cols))\<close> raises \<^verbatim>\<open>ValueError\<close> for a negative dimension.\<close>

definition np_zeros :: "int \<Rightarrow> int \<Rightarrow> py_error + grid" where
  "np_zeros rows cols =
     (if rows < 0 \<or> cols < 0 then Inl ValueError
      else Inr (replicate (nat rows) (replicate (nat cols) 0)))"

text \<open>
  The row that the index \<open>i\<close> names in an array of \<open>n\<close> rows: a negative index counts from
  the end.
\<close>

definition py_row :: "int \<Rightarrow> int \<Rightarrow> nat" where
  "py_row n i = nat (if i < 0 then i + n else i)"

text \<open>
  An assignment \<^verbatim>\<open>grid[sym_idx, <columns>] = 1\<close>: the row index follows Python's rules
  and raises \<^verbatim>\<open>IndexError\<close> out of range; \<open>f\<close> is the assignment to the selected
  columns of that row.
\<close>

definition set_row :: "grid \<Rightarrow> int \<Rightarrow> (int list \<Rightarrow> int list) \<Rightarrow> py_error + grid" where
  "set_row g sym_idx f =
     (let n = int (length g);
          j = (if sym_idx < 0 then sym_idx + n else sym_idx)
      in if 0 \<le> j \<and> j < n then Inr (g[nat j := f (g ! nat j)])
         else Inl (IndexError sym_idx))"

text \<open>\<^verbatim>\<open>row[::2] = 1\<close>\<close>

definition assign_every_other :: "int list \<Rightarrow> int list" where
  "assign_every_other row = map (\<lambda>(j, x). if even j then 1 else x) (enumerate 0 row)"

text \<open>\<^verbatim>\<open>row[a:b] = 1\<close> for \<open>0 \<le> a\<close> and \<open>0 \<le> b\<close>; a slice is clipped to the row.\<close>

definition assign_slice :: "nat \<Rightarrow> nat \<Rightarrow> int list \<Rightarrow> int list" where
  "assign_slice a b row = map (\<lambda>(j, x). if a \<le> j \<and> j < b then 1 else x) (enumerate 0 row)"

text \<open>\<^verbatim>\<open>row[:] = 1\<close>\<close>

definition assign_all :: "int list \<Rightarrow> int list" where
  "assign_all row = map (\<lambda>x. 1) row"

text \<open>\<^verbatim>\<open>range(stop)\<close> and \<^verbatim>\<open>range(0, stop, step)\<close> for a positive step.\<close>

definition py_range :: "int \<Rightarrow> int list" where
  "py_range stop = map int [0..<nat stop]"

definition py_range_step :: "int \<Rightarrow> int \<Rightarrow> int list" where
  "py_range_step stop step = map (\<lambda>k. int k * step) [0..<nat ((stop + step - 1) div step)]"

text \<open>
  A \<^verbatim>\<open>for\<close> loop whose body updates the array and may raise: the first exception ends
  the loop.
\<close>

fun for_each :: "'a list \<Rightarrow> ('a \<Rightarrow> grid \<Rightarrow> py_error + grid) \<Rightarrow> grid \<Rightarrow> py_error + grid" where
  "for_each [] body g = Inr g"
| "for_each (x # xs) body g =
     (case body x g of Inl e \<Rightarrow> Inl e | Inr g' \<Rightarrow> for_each xs body g')"

section \<open>Helper function \<^verbatim>\<open>create_dmrs_pattern\<close>\<close>

text \<open>
  The inner loop of the \<^verbatim>\<open>Type2\<close> branch, over the subcarriers of one symbol row:
  \<^verbatim>\<open>for sc_idx in range(0, num_rbs * 12, 6): if sc_idx < num_rbs * 12 - 1: grid[sym_idx, sc_idx:sc_idx+2] = 1\<close>.
  The number of subcarriers \<^verbatim>\<open>num_rbs * 12\<close> is the parameter \<open>num_sc\<close>.
\<close>

definition dmrs_type2_row :: "int \<Rightarrow> int \<Rightarrow> grid \<Rightarrow> py_error + grid" where
  "dmrs_type2_row num_sc sym_idx g =
     for_each (py_range_step num_sc 6)
       (\<lambda>sc_idx g. if sc_idx < num_sc - 1
                    then set_row g sym_idx (assign_slice (nat sc_idx) (nat (sc_idx + 2)))
                    else Inr g) g"

definition create_dmrs_pattern :: "int \<Rightarrow> int \<Rightarrow> string \<Rightarrow> int list \<Rightarrow> py_error + grid" where
  "create_dmrs_pattern num_rbs num_symbols dmrs_type dmrs_positions =
     (case np_zeros num_symbols (num_rbs * 12) of
        Inl e \<Rightarrow> Inl e
      | Inr g \<Rightarrow>
          if dmrs_type = ''Type1'' then
            for_each dmrs_positions
              (\<lambda>sym_idx g. if sym_idx < num_symbols
                            then set_row g sym_idx assign_every_other
                            else Inr g) g
          else if dmrs_type = ''Type2'' then
            for_each dmrs_positions
              (\<lambda>sym_idx g. if sym_idx < num_symbols
                            then dmrs_type2_row (num_rbs * 12) sym_idx g
                            else Inr g) g
          else Inr g)"

section \<open>Helper function \<^verbatim>\<open>create_pdcch_region\<close>\<close>

definition create_pdcch_region :: "int \<Rightarrow> int \<Rightarrow> int \<Rightarrow> py_error + grid" where
  "create_pdcch_region num_rbs num_symbols coreset_duration =
     (case np_zeros num_symbols (num_rbs * 12) of
        Inl e \<Rightarrow> Inl e
      | Inr g \<Rightarrow>
          for_each (py_range (min coreset_duration num_symbols))
            (\<lambda>sym_idx g. set_row g sym_idx assign_all) g)"

section \<open>The resource grid page\<close>

text \<open>\<^verbatim>\<open>a[:, :] = 1\<close>\<close>

definition fill_all :: "grid \<Rightarrow> grid" where
  "fill_all a = map (map (\<lambda>x. 1)) a"

text \<open>\<^verbatim>\<open>a[m == 1] = v\<close> for a mask \<open>m\<close> of the shape of \<open>a\<close>.\<close>

definition mask_assign :: "grid \<Rightarrow> grid \<Rightarrow> int \<Rightarrow> grid" where
  "mask_assign a m v = map2 (\<lambda>row mrow. map2 (\<lambda>x b. if b = 1 then v else x) row mrow) a m"

text \<open>
  The construction of \<^verbatim>\<open>grid_allocation\<close>, as a function of the values the page reads
  from its widgets. The widgets of a layer that is switched off are not read; their
  parameters are then ignored.
\<close>

definition resource_grid ::
  "int \<Rightarrow> int \<Rightarrow> bool \<Rightarrow> bool \<Rightarrow> bool \<Rightarrow> string \<Rightarrow> int list \<Rightarrow> int \<Rightarrow> py_error + grid" where
  "resource_grid num_rbs num_symbols show_dmrs show_pdcch show_pdsch
       dmrs_type dmrs_symbols coreset_duration =
     (let total_subcarriers = num_rbs * 12 in
      case np_zeros num_symbols total_subcarriers of
        Inl e \<Rightarrow> Inl e
      | Inr g0 \<Rightarrow>
          (let g1 = (if show_pdsch then fill_all g0 else g0) in
           case (if show_pdcch then
                   (case create_pdcch_region num_rbs num_symbols coreset_duration of
                      Inl e \<Rightarrow> Inl e
                    | Inr pdcch \<Rightarrow> Inr (mask_assign g1 pdcch 2))
                 else Inr g1) of
             Inl e \<Rightarrow> Inl e
           | Inr g2 \<Rightarrow>
               if show_dmrs then
                 (case create_dmrs_pattern num_rbs num_symbols dmrs_type dmrs_symbols of
                    Inl e \<Rightarrow> Inl e
                  | Inr dmrs \<Rightarrow> Inr (mask_assign g2 dmrs 3))
               else Inr g2))"

text \<open>\<^verbatim>\<open>np.sum(a == v)\<close>\<close>

definition count_cells :: "int \<Rightarrow> grid \<Rightarrow> int" where
  "count_cells v a = (\<Sum>row\<leftarrow>a. int (length (filter (\<lambda>x. x = v) row)))"

record resource_statistics =
  total_res :: int
  dmrs_res :: int
  pdcch_res :: int
  pdsch_res :: int
  empty_res :: int

definition resource_element_statistics :: "int \<Rightarrow> int \<Rightarrow> grid \<Rightarrow> resource_statistics" where
  "resource_element_statistics num_rbs num_symbols grid_allocation =
     \<lparr>total_res = num_rbs * 12 * num_symbols,
      dmrs_res = count_cells 3 grid_allocation,
      pdcch_res = count_cells 2 grid_allocation,
      pdsch_res = count_cells 1 grid_allocation,
      empty_res = count_cells 0 grid_allocation\<rparr>"

section \<open>The TDD configuration page\<close>

text \<open>\<^verbatim>\<open>int(x)\<close> of a float truncates toward zero.\<close>

definition py_int :: "rat \<Rightarrow> int" where
  "py_int x = (if x < 0 then \<lceil>x\<rceil> else \<lfloor>x\<rfloor>)"

text \<open>The decimal text of an integer, as an f-string prints it.\<close>

definition digit_char :: "nat \<Rightarrow> char" where
  "digit_char d = ''0123456789'' ! d"

fun str_nat :: "nat \<Rightarrow> string" where
  "str_nat n = (if n < 10 then [digit_char n] else str_nat (n div 10) @ [digit_char (n mod 10)])"

declare str_nat.simps [simp del]

definition str_int :: "int \<Rightarrow> string" where
  "str_int i = (if i < 0 then ''-'' @ str_nat (nat (- i)) else str_nat (nat i))"

text \<open>\<^verbatim>\<open>for _ in range(n): xs.append(x)\<close>\<close>

fun append_times :: "nat \<Rightarrow> 'a \<Rightarrow> 'a list \<Rightarrow> 'a list" where
  "append_times 0 x xs = xs"
| "append_times (Suc n) x xs = append_times n x (xs @ [x])"

text \<open>\<^verbatim>\<open>while len(slot_pattern) < slots_in_period: slot_pattern.append('F')\<close>\<close>

function pad_flexible :: "int \<Rightarrow> string list \<Rightarrow> string list" where
  "pad_flexible n sp = (if int (length sp) < n then pad_flexible n (sp @ [''F'']) else sp)"
  by pat_completeness auto
termination
  by (relation "measure (\<lambda>(n, sp). nat (n - int (length sp)))") auto

declare pad_flexible.simps [simp del]

text \<open>\<^verbatim>\<open>xs[:n]\<close>: a negative \<open>n\<close> drops that many elements from the end.\<close>

definition py_take :: "int \<Rightarrow> 'a list \<Rightarrow> 'a list" where
  "py_take n xs = (if n < 0 then take (length xs - nat (- n)) xs else take (nat n) xs)"

text \<open>
  The variables of the page after the pattern is built. \<open>guard\<close> and \<open>partial\<close> are
  assigned only in the branch that appends the \<^verbatim>\<open>'X'\<close> slot; the list itself holds only
  the labels, and the split of the partial slot is in these two variables.
\<close>

record tdd_pattern =
  slots_in_period :: int
  slot_pattern :: "string list"
  guard :: "int option"
  partial :: "string option"

definition tdd_configuration ::
  "rat \<Rightarrow> int \<Rightarrow> int \<Rightarrow> int \<Rightarrow> int \<Rightarrow> int \<Rightarrow> py_error + tdd_pattern" where
  "tdd_configuration tdd_periodicity_ms num_dl_slots num_dl_symbols num_ul_slots
       num_ul_symbols scs_tdd =
     (case get_slot_params scs_tdd of
        Inl e \<Rightarrow> Inl e
      | Inr params_tdd \<Rightarrow>
          (let n = py_int (tdd_periodicity_ms / slot_duration_ms params_tdd);
               sp1 = append_times (nat num_dl_slots) ''D'' [];
               has_partial = (num_dl_symbols > 0 \<or> num_ul_symbols > 0);
               g = 14 - num_dl_symbols - num_ul_symbols;
               sp2 = (if has_partial then sp1 @ [''X''] else sp1);
               sp3 = append_times (nat num_ul_slots) ''U'' sp2;
               sp4 = pad_flexible n sp3
           in Inr \<lparr>slots_in_period = n,
                   slot_pattern = sp4,
                   guard = (if has_partial then Some g else None),
                   partial = (if has_partial
                              then Some (''D'' @ str_int num_dl_symbols @ ''G'' @ str_int g
                                         @ ''U'' @ str_int num_ul_symbols)
                              else None)\<rparr>))"

text \<open>The pattern the page draws and prints: \<^verbatim>\<open>slot_pattern[:slots_in_period]\<close>.\<close>

definition shown_pattern :: "tdd_pattern \<Rightarrow> string list" where
  "shown_pattern t = py_take (slots_in_period t) (slot_pattern t)"

text \<open>
  The resource distribution. \<^verbatim>\<open>100 * a / b\<close> on integers is a true division and raises
  \<^verbatim>\<open>ZeroDivisionError\<close> for \<open>b = 0\<close>.
\<close>

text \<open>
  Float arithmetic. A binary64 float has a significand of 53 bits; the result of an
  operation is the exact result rounded to the nearest float, a tie going to the float
  with the even significand. \<open>float_exponent x\<close> is the exponent \<open>e\<close> with
  \<open>2 ^ e \<le> \<bar>x\<bar> < 2 ^ (e + 1)\<close>; the floats of that binade are the multiples of
  \<open>2 ^ (e - 52)\<close>, and below \<open>2 ^ (- 1022)\<close> (subnormal floats) the multiples of
  \<open>2 ^ (- 1074)\<close>. Overflow beyond the largest float is not modelled: it needs a count of
  slots or symbols above \<open>10 ^ 300\<close>.
\<close>

definition round_half_even :: "rat \<Rightarrow> int" where
  "round_half_even r =
     (let f = \<lfloor>r\<rfloor>; d = r - rat_of_int f
      in if d < 1 / 2 then f
         else if 1 / 2 < d then f + 1
         else if even f then f else f + 1)"

definition float_exponent :: "rat \<Rightarrow> int" where
  "float_exponent x =
     (let (a, b) = quotient_of \<bar>x\<bar>;
          k = bitlen a - bitlen b
      in if 2 powi k \<le> \<bar>x\<bar> then k else k - 1)"

definition py_float :: "rat \<Rightarrow> rat" where
  "py_float x =
     (if x = 0 then 0
      else (let q = 2 powi (max (float_exponent x) (- 1022) - 52)
            in rat_of_int (round_half_even (x / q)) * q))"

text \<open>
  \<^verbatim>\<open>a / b\<close> on integers with \<open>b \<noteq> 0\<close> is the correctly rounded quotient; \<^verbatim>\<open>x - y\<close> on
  floats is the rounded difference (the integer 100 is a float exactly).
\<close>

definition float_div_int :: "int \<Rightarrow> int \<Rightarrow> rat" where
  "float_div_int a b = py_float (rat_of_int a / rat_of_int b)"

definition float_sub :: "rat \<Rightarrow> rat \<Rightarrow> rat" where
  "float_sub x y = py_float (x - y)"

record tdd_distribution =
  total_dl_symbols :: int
  total_ul_symbols :: int
  total_symbols :: int
  dl_pct :: rat
  ul_pct :: rat
  guard_pct :: rat

definition resource_distribution ::
  "int \<Rightarrow> int \<Rightarrow> int \<Rightarrow> int \<Rightarrow> int \<Rightarrow> py_error + tdd_distribution" where
  "resource_distribution n num_dl_slots num_dl_symbols num_ul_slots num_ul_symbols =
     (let tdl = num_dl_slots * 14 + num_dl_symbols;
          tul = num_ul_slots * 14 + num_ul_symbols;
          ts = n * 14
      in if ts = 0 then Inl ZeroDivisionError
         else
           (let dl = float_div_int (100 * tdl) ts;
                ul = float_div_int (100 * tul) ts
            in Inr \<lparr>total_dl_symbols = tdl, total_ul_symbols = tul, total_symbols = ts,
                    dl_pct = dl, ul_pct = ul,
                    guard_pct = float_sub (float_sub 100 dl) ul\<rparr>))"

text \<open>
  The page as a whole: the pattern, then the resource distribution for the slot count of
  the pattern. An exception in either part ends the run of the page. The drawing of the
  charts between the two parts is not modelled.
\<close>

definition tdd_page ::
  "rat \<Rightarrow> int \<Rightarrow> int \<Rightarrow> int \<Rightarrow> int \<Rightarrow> int \<Rightarrow> py_error + tdd_pattern \<times> tdd_distribution" where
  "tdd_page tdd_periodicity_ms num_dl_slots num_dl_symbols num_ul_slots num_ul_symbols scs_tdd =
     (case tdd_configuration tdd_periodicity_ms num_dl_slots num_dl_symbols num_ul_slots
             num_ul_symbols scs_tdd of
        Inl e \<Rightarrow> Inl e
      | Inr t \<Rightarrow>
          (case resource_distribution (slots_in_period t) num_dl_slots num_dl_symbols
                  num_ul_slots num_ul_symbols of
             Inl e \<Rightarrow> Inl e
           | Inr d \<Rightarrow> Inr (t, d)))"

section \<open>Vocabulary of the statements\<close>

text \<open>
  Closed forms used to state what the loops compute. \<open>marks_row P f\<close>: the row assignment
  \<open>f\<close> writes 1 to the columns \<open>P\<close> and keeps the others. \<open>marked g g' M\<close>: the array
  \<open>g'\<close> is \<open>g\<close> with 1 written to the cells \<open>M\<close>. \<open>cells g n w F\<close>: the array has \<open>n\<close>
  rows of \<open>w\<close> cells and the cell \<open>(r, c)\<close> holds \<open>F r c\<close>. \<open>covered m r c\<close>: the mask was
  built and its cell \<open>(r, c)\<close> is 1.
\<close>

definition marks_row :: "(nat \<Rightarrow> bool) \<Rightarrow> (int list \<Rightarrow> int list) \<Rightarrow> bool" where
  "marks_row P f \<longleftrightarrow>
     (\<forall>row. length (f row) = length row
        \<and> (\<forall>c<length row. f row ! c = (if P c then 1 else row ! c)))"

definition marked :: "grid \<Rightarrow> grid \<Rightarrow> (nat \<Rightarrow> nat \<Rightarrow> bool) \<Rightarrow> bool" where
  "marked g g' M \<longleftrightarrow>
     length g' = length g
     \<and> (\<forall>r<length g. length (g' ! r) = length (g ! r)
           \<and> (\<forall>c<length (g ! r). g' ! r ! c = (if M r c then 1 else g ! r ! c)))"

definition dmrs_subcarrier :: "string \<Rightarrow> nat \<Rightarrow> bool" where
  "dmrs_subcarrier dmrs_type c =
     (if dmrs_type = ''Type1'' then even c
      else if dmrs_type = ''Type2'' then c mod 6 < 2
      else False)"

definition type2_subcarrier :: "int \<Rightarrow> nat \<Rightarrow> bool" where
  "type2_subcarrier num_sc c \<longleftrightarrow> c mod 6 < 2 \<and> int (6 * (c div 6)) + 2 \<le> num_sc"

definition cells :: "grid \<Rightarrow> nat \<Rightarrow> nat \<Rightarrow> (nat \<Rightarrow> nat \<Rightarrow> int) \<Rightarrow> bool" where
  "cells g n w F \<longleftrightarrow>
     length g = n \<and> (\<forall>r<n. length (g ! r) = w \<and> (\<forall>c<w. g ! r ! c = F r c))"

definition shape :: "grid \<Rightarrow> nat \<Rightarrow> nat \<Rightarrow> bool" where
  "shape g n w \<longleftrightarrow> length g = n \<and> (\<forall>r<n. length (g ! r) = w)"

definition covered :: "py_error + grid \<Rightarrow> nat \<Rightarrow> nat \<Rightarrow> bool" where
  "covered m r c = (case m of Inl e \<Rightarrow> False | Inr a \<Rightarrow> a ! r ! c = 1)"

text \<open>
  The symbol counts as the specification words them, read off a pattern of slot labels:
  14 symbols for each full \<^verbatim>\<open>D\<close> or \<^verbatim>\<open>U\<close> slot, the split \<open>dl\<close> / \<open>14 - dl - ul\<close> / \<open>ul\<close> for
  each \<^verbatim>\<open>X\<close> slot, and nothing for an \<^verbatim>\<open>F\<close> slot. \<open>percent_of k slots\<close> is the exact
  percentage of \<open>k\<close> symbols among the 14 symbols of each of \<open>slots\<close> slots, before any
  rounding. \<open>integral q\<close>: the quotient is a whole number.
\<close>

definition counted_dl :: "string list \<Rightarrow> int \<Rightarrow> int" where
  "counted_dl pat dl = 14 * int (count_list pat ''D'') + dl * int (count_list pat ''X'')"

definition counted_ul :: "string list \<Rightarrow> int \<Rightarrow> int" where
  "counted_ul pat ul = 14 * int (count_list pat ''U'') + ul * int (count_list pat ''X'')"

definition counted_guard :: "string list \<Rightarrow> int \<Rightarrow> int \<Rightarrow> int" where
  "counted_guard pat dl ul = (14 - dl - ul) * int (count_list pat ''X'')"

definition percent_of :: "int \<Rightarrow> int \<Rightarrow> rat" where
  "percent_of k slots = rat_of_int (100 * k) / rat_of_int (slots * 14)"

definition integral :: "rat \<Rightarrow> bool" where
  "integral q \<longleftrightarrow> rat_of_int \<lfloor>q\<rfloor> = q"

section \<open>Numerology\<close>

lemma mu_map_cases:
  "mu_map scs = (if scs = 240 then Some 4 else if scs = 120 then Some 3
                 else if scs = 60 then Some 2 else if scs = 30 then Some 1
                 else if scs = 15 then Some 0 else None)"
  by (simp add: mu_map_def)

text \<open>
  Claim C4. For each supported subcarrier spacing, \<^verbatim>\<open>get_slot_params\<close> returns the index
  \<open>\<mu>\<close> of the fixed map, the slot duration \<open>1 / 2 ^ \<mu>\<close> ms, \<open>2 ^ \<mu>\<close> slots per subframe,
  ten times as many slots per frame and 14 symbols per slot; the map sends
  15, 30, 60, 120, 240 to 0, 1, 2, 3, 4, so for every \<open>\<mu>\<close> in \<open>{0..4}\<close> the slot duration
  times the number of slots per frame is 10 ms.
\<close>

theorem get_slot_params_supported:
  assumes "scs_khz \<in> {15, 30, 60, 120, 240}"
  shows "\<exists>m. mu_map scs_khz = Some m \<and> m \<in> {0..4}
           \<and> m = (if scs_khz = 15 then 0 else if scs_khz = 30 then 1
                   else if scs_khz = 60 then 2 else if scs_khz = 120 then 3 else 4)
           \<and> get_slot_params scs_khz =
               Inr \<lparr>mu = m, slot_duration_ms = 1 / 2 ^ nat m,
                    slots_per_subframe = 2 ^ nat m,
                    slots_per_frame = 10 * 2 ^ nat m,
                    symbols_per_slot = 14\<rparr>
           \<and> (1 / 2 ^ nat m) * rat_of_int (10 * 2 ^ nat m) = 10"
  using assms by (auto simp: get_slot_params_def mu_map_cases)

theorem get_slot_params_supported_witness:
  "(30::int) \<in> {15, 30, 60, 120, 240}
   \<and> get_slot_params 30 =
        Inr \<lparr>mu = 1, slot_duration_ms = 1 / 2, slots_per_subframe = 2,
             slots_per_frame = 20, symbols_per_slot = 14\<rparr>"
  using get_slot_params_supported [of 30] by (simp add: mu_map_cases)

text \<open>
  Claim C7. For a subcarrier spacing outside \<open>{15, 30, 60, 120, 240}\<close> the dictionary
  lookup fails: \<^verbatim>\<open>get_slot_params\<close> raises the lookup error, which carries the offending
  value, and returns no timing parameters.
\<close>

theorem get_slot_params_unsupported:
  assumes "scs_khz \<notin> {15, 30, 60, 120, 240}"
  shows "get_slot_params scs_khz = Inl (KeyError scs_khz)"
  using assms by (simp add: get_slot_params_def mu_map_cases)

theorem get_slot_params_unsupported_witness:
  "(20::int) \<notin> {15, 30, 60, 120, 240} \<and> get_slot_params 20 = Inl (KeyError 20)"
  using get_slot_params_unsupported [of 20] by simp

section \<open>Loops and masks\<close>

lemma marks_every_other: "marks_row even assign_every_other"
  by (simp add: marks_row_def assign_every_other_def nth_enumerate_eq)

lemma marks_slice: "marks_row (\<lambda>c. a \<le> c \<and> c < b) (assign_slice a b)"
  by (simp add: marks_row_def assign_slice_def nth_enumerate_eq)

lemma marks_all: "marks_row (\<lambda>c. True) assign_all"
  by (simp add: marks_row_def assign_all_def)

lemma set_row_marked:
  assumes "marks_row P f" "- int (length g) \<le> i" "i < int (length g)"
  shows "\<exists>g'. set_row g i f = Inr g' \<and> marked g g' (\<lambda>r c. r = py_row (int (length g)) i \<and> P c)"
  using assms
  by (auto simp: set_row_def marked_def marks_row_def py_row_def Let_def nth_list_update)

lemma marked_trans:
  assumes "marked g g1 M1" "marked g1 g2 M2"
  shows "marked g g2 (\<lambda>r c. M1 r c \<or> M2 r c)"
  using assms by (auto simp: marked_def)

lemma for_each_marked:
  assumes "\<And>x g. x \<in> set xs \<Longrightarrow> length g = n \<Longrightarrow> \<exists>g'. body x g = Inr g' \<and> marked g g' (M x)"
    and "length g = n"
  shows "\<exists>g'. for_each xs body g = Inr g' \<and> marked g g' (\<lambda>r c. \<exists>x\<in>set xs. M x r c)"
  using assms
proof (induction xs arbitrary: g)
  case Nil
  then show ?case by (simp add: marked_def)
next
  case (Cons x xs)
  have "\<exists>g'. body x g = Inr g' \<and> marked g g' (M x)"
    by (rule Cons.prems(1)) (use Cons.prems(2) in auto)
  then obtain g1 where b: "body x g = Inr g1" and m1: "marked g g1 (M x)"
    by blast
  from m1 Cons.prems(2) have l1: "length g1 = n" by (simp add: marked_def)
  have "\<exists>g'. for_each xs body g1 = Inr g' \<and> marked g1 g' (\<lambda>r c. \<exists>x\<in>set xs. M x r c)"
    by (rule Cons.IH) (use Cons.prems(1) l1 in auto)
  then obtain g' where f: "for_each xs body g1 = Inr g'"
    and m2: "marked g1 g' (\<lambda>r c. \<exists>x\<in>set xs. M x r c)" by blast
  have "marked g g' (\<lambda>r c. M x r c \<or> (\<exists>x\<in>set xs. M x r c))"
    by (rule marked_trans [OF m1 m2])
  then have "marked g g' (\<lambda>r c. \<exists>y\<in>set (x # xs). M y r c)"
    by (simp add: marked_def)
  with b f show ?case by simp
qed

lemma np_zeros_ok:
  assumes "0 \<le> rows" "0 \<le> cols"
  shows "np_zeros rows cols = Inr (replicate (nat rows) (replicate (nat cols) 0))"
  using assms by (simp add: np_zeros_def)

lemma set_py_range_step6:
  "sc \<in> set (py_range_step n 6) \<longleftrightarrow> 0 \<le> sc \<and> sc < n \<and> sc mod 6 = 0"
proof
  assume "sc \<in> set (py_range_step n 6)"
  then obtain k where k: "sc = int k * 6" "int k < (n + 5) div 6"
    by (auto simp: py_range_step_def)
  then show "0 \<le> sc \<and> sc < n \<and> sc mod 6 = 0" by auto
next
  assume a: "0 \<le> sc \<and> sc < n \<and> sc mod 6 = 0"
  then have "sc = int (nat (sc div 6)) * 6" "nat (sc div 6) < nat ((n + 5) div 6)"
    by auto
  then show "sc \<in> set (py_range_step n 6)"
    unfolding py_range_step_def by (auto simp: image_iff intro!: bexI [of _ "nat (sc div 6)"])
qed

lemma type2_subcarrier_iff:
  "(\<exists>sc\<in>set (py_range_step n 6). sc < n - 1 \<and> nat sc \<le> c \<and> c < nat (sc + 2))
     \<longleftrightarrow> type2_subcarrier n c"
proof
  assume "\<exists>sc\<in>set (py_range_step n 6). sc < n - 1 \<and> nat sc \<le> c \<and> c < nat (sc + 2)"
  then obtain sc where s: "0 \<le> sc" "sc < n" "sc mod 6 = 0" "sc < n - 1" "nat sc \<le> c" "c < nat (sc + 2)"
    by (auto simp: set_py_range_step6)
  define k where "k = nat (sc div 6)"
  from s have sc: "sc = int (6 * k)" unfolding k_def by auto
  with s have "c = 6 * k \<or> c = 6 * k + 1" by linarith
  then have "c mod 6 < 2 \<and> c div 6 = k" by auto
  with s sc show "type2_subcarrier n c"
    unfolding type2_subcarrier_def by simp
next
  assume t: "type2_subcarrier n c"
  let ?sc = "int (6 * (c div 6))"
  have "?sc \<in> set (py_range_step n 6)" using t
    unfolding set_py_range_step6 type2_subcarrier_def by auto
  moreover have "c = 6 * (c div 6) + c mod 6" by simp
  then have "?sc < n - 1 \<and> nat ?sc \<le> c \<and> c < nat (?sc + 2)" using t
    unfolding type2_subcarrier_def by linarith
  ultimately show "\<exists>sc\<in>set (py_range_step n 6). sc < n - 1 \<and> nat sc \<le> c \<and> c < nat (sc + 2)"
    by blast
qed

lemma dmrs_type2_row_marked:
  assumes "- int (length g) \<le> i" "i < int (length g)"
  shows "\<exists>g'. dmrs_type2_row n i g = Inr g'
           \<and> marked g g' (\<lambda>r c. r = py_row (int (length g)) i \<and> type2_subcarrier n c)"
proof -
  let ?M = "\<lambda>sc r c. sc < n - 1 \<and> r = py_row (int (length g)) i \<and> nat sc \<le> c \<and> c < nat (sc + 2)"
  have "\<exists>g'. dmrs_type2_row n i g = Inr g'
           \<and> marked g g' (\<lambda>r c. \<exists>sc\<in>set (py_range_step n 6). ?M sc r c)"
    unfolding dmrs_type2_row_def
  proof (rule for_each_marked [where n = "length g"])
    fix sc :: int and h :: grid
    assume "length h = length g"
    then show "\<exists>g'. (if sc < n - 1 then set_row h i (assign_slice (nat sc) (nat (sc + 2))) else Inr h) = Inr g'
                 \<and> marked h g' (?M sc)"
      using set_row_marked [OF marks_slice, of h i "nat sc" "nat (sc + 2)"] assms
      by (auto simp: marked_def)
  qed simp
  then obtain g' where g': "dmrs_type2_row n i g = Inr g'"
     "marked g g' (\<lambda>r c. \<exists>sc\<in>set (py_range_step n 6). ?M sc r c)" by blast
  have "(\<lambda>r c. \<exists>sc\<in>set (py_range_step n 6). ?M sc r c)
         = (\<lambda>r c. r = py_row (int (length g)) i \<and> type2_subcarrier n c)"
    using type2_subcarrier_iff [of n] by (intro ext) blast
  with g' show ?thesis by simp
qed

lemma cells_zeros: "cells (replicate n (replicate w 0)) n w (\<lambda>r c. 0)"
  by (simp add: cells_def)

lemma cells_marked:
  assumes "cells g n w F" "marked g g' M"
  shows "cells g' n w (\<lambda>r c. if M r c then 1 else F r c)"
  using assms by (simp add: cells_def marked_def)

lemma cells_cong:
  assumes "cells g n w F" "\<And>r c. r < n \<Longrightarrow> c < w \<Longrightarrow> F r c = G r c"
  shows "cells g n w G"
  using assms by (simp add: cells_def)

lemma create_dmrs_pattern_cells:
  assumes "0 \<le> num_rbs" "0 \<le> num_symbols" "\<forall>i\<in>set ps. - num_symbols \<le> i"
  shows "\<exists>g. create_dmrs_pattern num_rbs num_symbols ty ps = Inr g
           \<and> cells g (nat num_symbols) (nat (num_rbs * 12))
                (\<lambda>r c. if (\<exists>i\<in>set ps. i < num_symbols \<and> py_row num_symbols i = r)
                            \<and> dmrs_subcarrier ty c then 1 else 0)"
proof -
  let ?z = "replicate (nat num_symbols) (replicate (nat (num_rbs * 12)) (0::int))"
  let ?R = "\<lambda>r. \<exists>i\<in>set ps. i < num_symbols \<and> py_row num_symbols i = r"
  have z: "np_zeros num_symbols (num_rbs * 12) = Inr ?z"
    using assms by (simp add: np_zeros_ok)
  have lz: "length ?z = nat num_symbols" by simp
  consider (t1) "ty = ''Type1''" | (t2) "ty \<noteq> ''Type1''" "ty = ''Type2''"
    | (other) "ty \<noteq> ''Type1''" "ty \<noteq> ''Type2''" by blast
  then show ?thesis
  proof cases
    case t1
    let ?body = "\<lambda>sym_idx g. if sym_idx < num_symbols
                   then set_row g sym_idx assign_every_other else Inr g"
    let ?M = "\<lambda>i r c. i < num_symbols \<and> r = py_row num_symbols i \<and> even c"
    have "\<exists>g'. for_each ps ?body ?z = Inr g' \<and> marked ?z g' (\<lambda>r c. \<exists>i\<in>set ps. ?M i r c)"
    proof (rule for_each_marked [where n = "nat num_symbols"])
      fix i :: int and h :: grid
      assume "i \<in> set ps" "length h = nat num_symbols"
      then show "\<exists>g'. ?body i h = Inr g' \<and> marked h g' (?M i)"
        using set_row_marked [OF marks_every_other, of h i] assms
        by (auto simp: marked_def)
    qed simp
    then obtain g where g: "for_each ps ?body ?z = Inr g"
      "marked ?z g (\<lambda>r c. \<exists>i\<in>set ps. ?M i r c)" by blast
    have "cells g (nat num_symbols) (nat (num_rbs * 12))
            (\<lambda>r c. if (\<exists>i\<in>set ps. ?M i r c) then 1 else 0)"
      by (rule cells_marked [OF cells_zeros g(2)])
    then have "cells g (nat num_symbols) (nat (num_rbs * 12))
            (\<lambda>r c. if ?R r \<and> dmrs_subcarrier ty c then 1 else 0)"
      by (rule cells_cong) (use t1 in \<open>auto simp: dmrs_subcarrier_def\<close>)
    with g(1) z t1 show ?thesis by (simp add: create_dmrs_pattern_def)
  next
    case t2
    let ?body = "\<lambda>sym_idx g. if sym_idx < num_symbols
                   then dmrs_type2_row (num_rbs * 12) sym_idx g else Inr g"
    let ?M = "\<lambda>i r c. i < num_symbols \<and> r = py_row num_symbols i
                 \<and> type2_subcarrier (num_rbs * 12) c"
    have "\<exists>g'. for_each ps ?body ?z = Inr g' \<and> marked ?z g' (\<lambda>r c. \<exists>i\<in>set ps. ?M i r c)"
    proof (rule for_each_marked [where n = "nat num_symbols"])
      fix i :: int and h :: grid
      assume "i \<in> set ps" "length h = nat num_symbols"
      then show "\<exists>g'. ?body i h = Inr g' \<and> marked h g' (?M i)"
        using dmrs_type2_row_marked [of h i "num_rbs * 12"] assms
        by (auto simp: marked_def)
    qed simp
    then obtain g where g: "for_each ps ?body ?z = Inr g"
      "marked ?z g (\<lambda>r c. \<exists>i\<in>set ps. ?M i r c)" by blast
    have c: "cells g (nat num_symbols) (nat (num_rbs * 12))
            (\<lambda>r c. if (\<exists>i\<in>set ps. ?M i r c) then 1 else 0)"
      by (rule cells_marked [OF cells_zeros g(2)])
    have e: "type2_subcarrier (num_rbs * 12) c \<longleftrightarrow> c mod 6 < 2"
      if "c < nat (num_rbs * 12)" for c
    proof -
      from that assms(1) have "c < (2 * nat num_rbs) * 6" by linarith
      then have "c div 6 < 2 * nat num_rbs"
        by (simp only: div_less_iff_less_mult [of 6, simplified])
      then have "int (6 * (c div 6)) + 2 \<le> num_rbs * 12" using assms(1) by linarith
      then show ?thesis unfolding type2_subcarrier_def by simp
    qed
    have "cells g (nat num_symbols) (nat (num_rbs * 12))
            (\<lambda>r c. if ?R r \<and> dmrs_subcarrier ty c then 1 else 0)"
      by (rule cells_cong [OF c]) (use t2 e in \<open>auto simp: dmrs_subcarrier_def\<close>)
    with g(1) z t2 show ?thesis by (simp add: create_dmrs_pattern_def)
  next
    case other
    have "cells ?z (nat num_symbols) (nat (num_rbs * 12))
            (\<lambda>r c. if ?R r \<and> dmrs_subcarrier ty c then 1 else 0)"
      by (rule cells_cong [OF cells_zeros]) (use other in \<open>simp add: dmrs_subcarrier_def\<close>)
    with z other show ?thesis by (simp add: create_dmrs_pattern_def)
  qed
qed

lemma create_pdcch_region_cells:
  assumes "0 \<le> num_rbs" "0 \<le> num_symbols"
  shows "\<exists>g. create_pdcch_region num_rbs num_symbols coreset_duration = Inr g
           \<and> cells g (nat num_symbols) (nat (num_rbs * 12))
                (\<lambda>r c. if r < nat (min coreset_duration num_symbols) then 1 else 0)"
proof -
  let ?z = "replicate (nat num_symbols) (replicate (nat (num_rbs * 12)) (0::int))"
  let ?m = "min coreset_duration num_symbols"
  have z: "np_zeros num_symbols (num_rbs * 12) = Inr ?z"
    using assms by (simp add: np_zeros_ok)
  let ?body = "\<lambda>sym_idx g. set_row g sym_idx assign_all"
  let ?M = "\<lambda>(i::int) r (c::nat). r = nat i"
  have "\<exists>g'. for_each (py_range ?m) ?body ?z = Inr g'
          \<and> marked ?z g' (\<lambda>r c. \<exists>i\<in>set (py_range ?m). ?M i r c)"
  proof (rule for_each_marked [where n = "nat num_symbols"])
    fix i :: int and h :: grid
    assume "i \<in> set (py_range ?m)" "length h = nat num_symbols"
    then have i: "- int (length h) \<le> i" "i < int (length h)" "py_row (int (length h)) i = nat i"
      by (auto simp: py_range_def py_row_def)
    show "\<exists>g'. ?body i h = Inr g' \<and> marked h g' (?M i)"
      using set_row_marked [OF marks_all i(1,2)] i(3) by simp
  qed simp
  then obtain g where g: "for_each (py_range ?m) ?body ?z = Inr g"
    "marked ?z g (\<lambda>r c. \<exists>i\<in>set (py_range ?m). ?M i r c)" by blast
  have "cells g (nat num_symbols) (nat (num_rbs * 12))
          (\<lambda>r c. if (\<exists>i\<in>set (py_range ?m). ?M i r c) then 1 else 0)"
    by (rule cells_marked [OF cells_zeros g(2)])
  moreover have "(\<exists>i\<in>set (py_range ?m). r = nat i) \<longleftrightarrow> r < nat ?m" for r
    by (auto simp: py_range_def)
  ultimately have "cells g (nat num_symbols) (nat (num_rbs * 12))
          (\<lambda>r c. if r < nat ?m then 1 else 0)"
    by simp
  with g(1) z show ?thesis by (simp add: create_pdcch_region_def)
qed

lemma cells_shape: "cells g n w F \<Longrightarrow> shape g n w"
  by (simp add: cells_def shape_def)

lemma shape_zeros: "shape (replicate n (replicate w 0)) n w"
  by (simp add: shape_def)

lemma np_zeros_Inr:
  assumes "np_zeros rows cols = Inr g"
  shows "0 \<le> rows \<and> 0 \<le> cols \<and> g = replicate (nat rows) (replicate (nat cols) 0)"
  using assms by (auto simp: np_zeros_def split: if_splits)

lemma set_row_shape:
  assumes "set_row g i f = Inr g'" "\<And>row. length (f row) = length row" "shape g n w"
  shows "shape g' n w"
  using assms
  by (auto simp: set_row_def shape_def Let_def nth_list_update split: if_splits)

lemma for_each_shape:
  assumes "\<And>x h h'. x \<in> set xs \<Longrightarrow> body x h = Inr h' \<Longrightarrow> shape h n w \<Longrightarrow> shape h' n w"
    and "for_each xs body g = Inr g'" "shape g n w"
  shows "shape g' n w"
  using assms
proof (induction xs arbitrary: g)
  case Nil
  then show ?case by simp
next
  case (Cons x xs)
  from Cons.prems(2) obtain g1 where b: "body x g = Inr g1" and f: "for_each xs body g1 = Inr g'"
    by (auto split: sum.splits)
  have "shape g1 n w" by (rule Cons.prems(1) [OF _ b Cons.prems(3)]) simp
  with Cons.IH [OF _ f] Cons.prems(1) show ?case by auto
qed

lemma length_assign_slice: "length (assign_slice a b row) = length row"
  by (simp add: assign_slice_def)

lemma length_assign_every_other: "length (assign_every_other row) = length row"
  by (simp add: assign_every_other_def)

lemma dmrs_type2_row_shape:
  assumes "dmrs_type2_row k i g = Inr g'" "shape g n w"
  shows "shape g' n w"
proof (rule for_each_shape [OF _ assms(1) [unfolded dmrs_type2_row_def] assms(2)])
  fix sc :: int and h h' :: grid
  assume "(if sc < k - 1 then set_row h i (assign_slice (nat sc) (nat (sc + 2))) else Inr h) = Inr h'"
    and "shape h n w"
  then show "shape h' n w"
    by (auto split: if_splits intro: set_row_shape [OF _ length_assign_slice])
qed

lemma create_dmrs_pattern_shape:
  assumes "create_dmrs_pattern num_rbs num_symbols ty ps = Inr g"
  shows "shape g (nat num_symbols) (nat (num_rbs * 12))"
proof -
  let ?z = "replicate (nat num_symbols) (replicate (nat (num_rbs * 12)) (0::int))"
  from assms obtain z where z: "np_zeros num_symbols (num_rbs * 12) = Inr z"
    by (auto simp: create_dmrs_pattern_def split: sum.splits)
  then have zz: "z = ?z" using np_zeros_Inr by blast
  have sz: "shape ?z (nat num_symbols) (nat (num_rbs * 12))" by (rule shape_zeros)
  consider (t1) "ty = ''Type1''" | (t2) "ty \<noteq> ''Type1''" "ty = ''Type2''"
    | (other) "ty \<noteq> ''Type1''" "ty \<noteq> ''Type2''" by blast
  then show ?thesis
  proof cases
    case t1
    with assms z zz have f: "for_each ps (\<lambda>sym_idx g. if sym_idx < num_symbols
                   then set_row g sym_idx assign_every_other else Inr g) ?z = Inr g"
      by (simp add: create_dmrs_pattern_def)
    show ?thesis
    proof (rule for_each_shape [OF _ f sz])
      fix i :: int and h h' :: grid
      assume "(if i < num_symbols then set_row h i assign_every_other else Inr h) = Inr h'"
        and "shape h (nat num_symbols) (nat (num_rbs * 12))"
      then show "shape h' (nat num_symbols) (nat (num_rbs * 12))"
        by (auto split: if_splits intro: set_row_shape [OF _ length_assign_every_other])
    qed
  next
    case t2
    with assms z zz have f: "for_each ps (\<lambda>sym_idx g. if sym_idx < num_symbols
                   then dmrs_type2_row (num_rbs * 12) sym_idx g else Inr g) ?z = Inr g"
      by (simp add: create_dmrs_pattern_def)
    show ?thesis
    proof (rule for_each_shape [OF _ f sz])
      fix i :: int and h h' :: grid
      assume "(if i < num_symbols then dmrs_type2_row (num_rbs * 12) i h else Inr h) = Inr h'"
        and "shape h (nat num_symbols) (nat (num_rbs * 12))"
      then show "shape h' (nat num_symbols) (nat (num_rbs * 12))"
        by (auto split: if_splits intro: dmrs_type2_row_shape)
    qed
  next
    case other
    with assms z zz sz show ?thesis by (simp add: create_dmrs_pattern_def)
  qed
qed

lemma mask_assign_cell:
  assumes "shape a n w" "shape m n w" "r < n" "c < w"
  shows "mask_assign a m v ! r ! c = (if m ! r ! c = 1 then v else a ! r ! c)"
  using assms by (simp add: shape_def mask_assign_def)

lemma mask_assign_shape:
  assumes "shape a n w" "shape m n w"
  shows "shape (mask_assign a m v) n w"
  using assms by (simp add: shape_def mask_assign_def)

lemma fill_all_shape: "shape a n w \<Longrightarrow> shape (fill_all a) n w"
  by (simp add: shape_def fill_all_def)

lemma fill_all_cell: "shape a n w \<Longrightarrow> r < n \<Longrightarrow> c < w \<Longrightarrow> fill_all a ! r ! c = 1"
  by (simp add: shape_def fill_all_def)

lemma resource_grid_result:
  assumes "resource_grid num_rbs num_symbols show_dmrs show_pdcch show_pdsch
             dmrs_type dmrs_symbols coreset_duration = Inr g"
  shows "0 \<le> num_rbs \<and> 0 \<le> num_symbols
         \<and> (\<exists>p. create_pdcch_region num_rbs num_symbols coreset_duration = Inr p)
         \<and> (show_dmrs \<longrightarrow>
               (\<exists>d. create_dmrs_pattern num_rbs num_symbols dmrs_type dmrs_symbols = Inr d))
         \<and> cells g (nat num_symbols) (nat (num_rbs * 12))
             (\<lambda>r c. if show_dmrs \<and> covered (create_dmrs_pattern num_rbs num_symbols
                                                dmrs_type dmrs_symbols) r c then 3
                     else if show_pdcch \<and> covered (create_pdcch_region num_rbs num_symbols
                                                coreset_duration) r c then 2
                     else if show_pdsch then 1 else 0)"
proof -
  let ?n = "nat num_symbols" and ?w = "nat (num_rbs * 12)"
  let ?z = "replicate ?n (replicate ?w (0::int))"
  let ?D = "create_dmrs_pattern num_rbs num_symbols dmrs_type dmrs_symbols"
  let ?P = "create_pdcch_region num_rbs num_symbols coreset_duration"
  from assms obtain z where z: "np_zeros num_symbols (num_rbs * 12) = Inr z"
    by (auto simp: resource_grid_def Let_def split: sum.splits)
  then have zz: "z = ?z" and nn: "0 \<le> num_symbols" "0 \<le> num_rbs"
    using np_zeros_Inr [OF z] by auto
  define g1 where "g1 = (if show_pdsch then fill_all ?z else ?z)"
  have s1: "shape g1 ?n ?w"
    by (simp add: g1_def fill_all_shape shape_zeros)
  have c1: "g1 ! r ! c = (if show_pdsch then 1 else 0)" if "r < ?n" "c < ?w" for r c
    using that fill_all_cell [OF shape_zeros that] by (simp add: g1_def)
  obtain pdcch where p: "?P = Inr pdcch" and pc: "cells pdcch ?n ?w
       (\<lambda>r c. if r < nat (min coreset_duration num_symbols) then 1 else 0)"
    using create_pdcch_region_cells [OF nn(2,1)] by blast
  define g2 where "g2 = (if show_pdcch then mask_assign g1 pdcch 2 else g1)"
  have s2: "shape g2 ?n ?w"
    by (simp add: g2_def s1 mask_assign_shape cells_shape [OF pc])
  have c2: "g2 ! r ! c = (if show_pdcch \<and> covered ?P r c then 2
                          else if show_pdsch then 1 else 0)" if "r < ?n" "c < ?w" for r c
    using that c1 [OF that] mask_assign_cell [OF s1 cells_shape [OF pc] that]
    by (simp add: g2_def p covered_def)
  from assms z zz p
  have g: "(if show_dmrs then (case ?D of Inl e \<Rightarrow> Inl e | Inr dmrs \<Rightarrow> Inr (mask_assign g2 dmrs 3))
            else Inr g2) = Inr g"
    unfolding resource_grid_def Let_def g1_def g2_def by (simp split: if_splits)
  show ?thesis
  proof (cases show_dmrs)
    case False
    with g have "g = g2" by simp
    with s2 c2 False nn p show ?thesis by (simp add: cells_def shape_def)
  next
    case True
    with g obtain dmrs where d: "?D = Inr dmrs" and gd: "g = mask_assign g2 dmrs 3"
      by (auto split: sum.splits)
    have sd: "shape dmrs ?n ?w" by (rule create_dmrs_pattern_shape [OF d])
    have "shape g ?n ?w" unfolding gd by (rule mask_assign_shape [OF s2 sd])
    moreover have "g ! r ! c = (if covered ?D r c then 3
                          else if show_pdcch \<and> covered ?P r c then 2
                          else if show_pdsch then 1 else 0)" if "r < ?n" "c < ?w" for r c
      using c2 [OF that] mask_assign_cell [OF s2 sd that] by (simp add: gd d covered_def)
    ultimately show ?thesis using True nn p d by (simp add: cells_def shape_def)
  qed
qed

section \<open>The resource grid\<close>

lemma count_row_total:
  assumes "set row \<subseteq> {0, 1, 2, 3 :: int}"
  shows "int (length (filter (\<lambda>x. x = 0) row)) + int (length (filter (\<lambda>x. x = 1) row))
         + int (length (filter (\<lambda>x. x = 2) row)) + int (length (filter (\<lambda>x. x = 3) row))
         = int (length row)"
  using assms by (induction row) auto

lemma count_cells_total:
  assumes "\<forall>row\<in>set g. length row = w \<and> set row \<subseteq> {0, 1, 2, 3 :: int}"
  shows "count_cells 0 g + count_cells 1 g + count_cells 2 g + count_cells 3 g
         = int (length g) * int w"
  using assms
proof (induction g)
  case Nil
  then show ?case by (simp add: count_cells_def)
next
  case (Cons row g)
  then have "set row \<subseteq> {0, 1, 2, 3}" "length row = w" by auto
  from count_row_total [OF this(1)] this(2) Cons show ?case
    by (simp add: count_cells_def algebra_simps)
qed

lemma cells_rows:
  assumes "cells g n w F" "\<And>r c. r < n \<Longrightarrow> c < w \<Longrightarrow> F r c \<in> S"
  shows "\<forall>row\<in>set g. length row = w \<and> set row \<subseteq> S"
proof
  fix row assume "row \<in> set g"
  then obtain r where r: "r < length g" "row = g ! r" by (auto simp: in_set_conv_nth)
  with assms(1) have l: "r < n" "length row = w" "\<forall>c<w. row ! c = F r c"
    by (auto simp: cells_def)
  have "set row \<subseteq> S"
  proof
    fix x assume "x \<in> set row"
    then obtain c where "c < length row" "x = row ! c" by (auto simp: in_set_conv_nth)
    with l assms(2) show "x \<in> S" by auto
  qed
  with l show "length row = w \<and> set row \<subseteq> S" by simp
qed

lemma resource_grid_total:
  assumes "0 \<le> num_rbs" "0 \<le> num_symbols"
    and "show_dmrs \<longrightarrow> (\<forall>i\<in>set dmrs_symbols. - num_symbols \<le> i)"
  shows "\<exists>g. resource_grid num_rbs num_symbols show_dmrs show_pdcch show_pdsch
             dmrs_type dmrs_symbols coreset_duration = Inr g"
proof -
  obtain p where p: "create_pdcch_region num_rbs num_symbols coreset_duration = Inr p"
    using create_pdcch_region_cells [OF assms(1,2)] by blast
  have z: "np_zeros num_symbols (num_rbs * 12)
           = Inr (replicate (nat num_symbols) (replicate (nat (num_rbs * 12)) 0))"
    using assms by (simp add: np_zeros_ok)
  show ?thesis
  proof (cases show_dmrs)
    case False
    with p z show ?thesis by (simp add: resource_grid_def Let_def)
  next
    case True
    with assms(3) obtain d where
      "create_dmrs_pattern num_rbs num_symbols dmrs_type dmrs_symbols = Inr d"
      using create_dmrs_pattern_cells [OF assms(1,2)] by blast
    with p z show ?thesis by (simp add: resource_grid_def Let_def)
  qed
qed

text \<open>
  Claim C5. In every grid that the page builds, whatever layers are switched on, a cell
  covered by the DMRS mask holds 3 (DMRS), never 1 or 2; a cell outside the DMRS mask and
  covered by the CORESET mask holds 2 (PDCCH), never 1; any other cell holds 1 (PDSCH) if
  that layer is on and 0 otherwise. The precedence PDSCH < PDCCH < DMRS is fixed: a later
  layer overrides an earlier one. The masks of the layers that are on were built.
\<close>

theorem resource_grid_precedence:
  assumes "resource_grid num_rbs num_symbols show_dmrs show_pdcch show_pdsch
             dmrs_type dmrs_symbols coreset_duration = Inr g"
    and "r < length g" "c < length (g ! r)"
  shows "(show_dmrs \<longrightarrow>
            (\<exists>d. create_dmrs_pattern num_rbs num_symbols dmrs_type dmrs_symbols = Inr d))
         \<and> (\<exists>p. create_pdcch_region num_rbs num_symbols coreset_duration = Inr p)
         \<and> g ! r ! c =
             (if show_dmrs \<and> covered (create_dmrs_pattern num_rbs num_symbols
                                        dmrs_type dmrs_symbols) r c then 3
              else if show_pdcch \<and> covered (create_pdcch_region num_rbs num_symbols
                                        coreset_duration) r c then 2
              else if show_pdsch then 1 else 0)"
  using resource_grid_result [OF assms(1)] assms(2,3)
  by (simp add: cells_def)

theorem resource_grid_precedence_witness:
  "resource_grid 1 3 True True True ''Type1'' [2] 2 =
     Inr [[2, 2, 2, 2, 2, 2, 2, 2, 2, 2, 2, 2],
          [2, 2, 2, 2, 2, 2, 2, 2, 2, 2, 2, 2],
          [3, 1, 3, 1, 3, 1, 3, 1, 3, 1, 3, 1]]
   \<and> covered (create_dmrs_pattern 1 3 ''Type1'' [2]) 2 0
   \<and> \<not> covered (create_dmrs_pattern 1 3 ''Type1'' [2]) 1 0
   \<and> covered (create_pdcch_region 1 3 2) 1 0
   \<and> [[2, 2, 2, 2, 2, 2, 2, 2, 2, 2, 2, 2],
       [2, 2, 2, 2, 2, 2, 2, 2, 2, 2, 2, 2],
       [3, 1, 3, 1, 3, 1, 3, 1, 3, 1, 3, 1 :: int]] ! 2 ! 0 = 3"
proof -
  let ?G = "[[2, 2, 2, 2, 2, 2, 2, 2, 2, 2, 2, 2],
             [2, 2, 2, 2, 2, 2, 2, 2, 2, 2, 2, 2],
             [3, 1, 3, 1, 3, 1, 3, 1, 3, 1, 3, 1 :: int]]"
  have e: "resource_grid 1 3 True True True ''Type1'' [2] 2 = Inr ?G"
    by code_simp
  have d: "covered (create_dmrs_pattern 1 3 ''Type1'' [2]) 2 0"
    "\<not> covered (create_dmrs_pattern 1 3 ''Type1'' [2]) 1 0"
    "covered (create_pdcch_region 1 3 2) 1 0"
    by code_simp+
  have "?G ! 2 ! 0 = 3"
    using resource_grid_precedence [OF e, of 2 0] d by simp
  with e d show ?thesis by simp
qed

text \<open>
  Claim C6. For every grid the page builds, the four counts of the statistics (empty,
  PDSCH, PDCCH, DMRS) add up to \<open>num_rbs * 12 * num_symbols\<close>, the reported total: every
  cell holds exactly one of the four values. For \<open>num_rbs \<ge> 1\<close>, \<open>num_symbols\<close> in
  \<open>[1, 14]\<close> and every combination of layers the grid is built, provided that no DMRS
  symbol index lies below \<open>- num_symbols\<close> (the page offers only \<open>0 .. num_symbols - 1\<close>).
\<close>

theorem resource_statistics_total:
  "(\<forall>g. resource_grid num_rbs num_symbols show_dmrs show_pdcch show_pdsch
             dmrs_type dmrs_symbols coreset_duration = Inr g \<longrightarrow>
        (let s = resource_element_statistics num_rbs num_symbols g
         in empty_res s + pdsch_res s + pdcch_res s + dmrs_res s = num_rbs * 12 * num_symbols
            \<and> total_res s = num_rbs * 12 * num_symbols))
   \<and> (1 \<le> num_rbs \<and> 1 \<le> num_symbols \<and> num_symbols \<le> 14
        \<and> (show_dmrs \<longrightarrow> (\<forall>i\<in>set dmrs_symbols. - num_symbols \<le> i)) \<longrightarrow>
        (\<exists>g. resource_grid num_rbs num_symbols show_dmrs show_pdcch show_pdsch
             dmrs_type dmrs_symbols coreset_duration = Inr g))"
proof (intro conjI allI impI)
  fix g
  assume g: "resource_grid num_rbs num_symbols show_dmrs show_pdcch show_pdsch
             dmrs_type dmrs_symbols coreset_duration = Inr g"
  let ?F = "\<lambda>r c. if show_dmrs \<and> covered (create_dmrs_pattern num_rbs num_symbols
                                                dmrs_type dmrs_symbols) r c then 3
                     else if show_pdcch \<and> covered (create_pdcch_region num_rbs num_symbols
                                                coreset_duration) r c then 2
                     else if show_pdsch then 1 else (0::int)"
  from resource_grid_result [OF g]
  have nn: "0 \<le> num_rbs" "0 \<le> num_symbols"
    and c: "cells g (nat num_symbols) (nat (num_rbs * 12)) ?F" by simp_all
  have "\<forall>row\<in>set g. length row = nat (num_rbs * 12) \<and> set row \<subseteq> {0, 1, 2, 3}"
    by (rule cells_rows [OF c]) simp
  from count_cells_total [OF this] c nn
  have "count_cells 0 g + count_cells 1 g + count_cells 2 g + count_cells 3 g
         = num_rbs * 12 * num_symbols"
    by (simp add: cells_def)
  then show "let s = resource_element_statistics num_rbs num_symbols g
         in empty_res s + pdsch_res s + pdcch_res s + dmrs_res s = num_rbs * 12 * num_symbols
            \<and> total_res s = num_rbs * 12 * num_symbols"
    by (simp add: resource_element_statistics_def)
next
  assume "1 \<le> num_rbs \<and> 1 \<le> num_symbols \<and> num_symbols \<le> 14
        \<and> (show_dmrs \<longrightarrow> (\<forall>i\<in>set dmrs_symbols. - num_symbols \<le> i))"
  then show "\<exists>g. resource_grid num_rbs num_symbols show_dmrs show_pdcch show_pdsch
             dmrs_type dmrs_symbols coreset_duration = Inr g"
    by (intro resource_grid_total) auto
qed


theorem resource_statistics_total_witness:
  "(1::int) \<le> 1 \<and> (1::int) \<le> 2 \<and> (2::int) \<le> 14 \<and> (- 2 :: int) \<le> 0
   \<and> resource_grid 1 2 True False True ''Type2'' [0] 1 =
        Inr [[3, 3, 1, 1, 1, 1, 3, 3, 1, 1, 1, 1],
             [1, 1, 1, 1, 1, 1, 1, 1, 1, 1, 1, 1]]
   \<and> resource_element_statistics 1 2
        [[3, 3, 1, 1, 1, 1, 3, 3, 1, 1, 1, 1],
         [1, 1, 1, 1, 1, 1, 1, 1, 1, 1, 1, 1]]
      = \<lparr>total_res = 24, dmrs_res = 4, pdcch_res = 0, pdsch_res = 20, empty_res = 0\<rparr>"
proof -
  let ?G = "[[3, 3, 1, 1, 1, 1, 3, 3, 1, 1, 1, 1],
             [1, 1, 1, 1, 1, 1, 1, 1, 1, 1, 1, 1 :: int]]"
  have e: "resource_grid 1 2 True False True ''Type2'' [0] 1 = Inr ?G"
    by code_simp
  have s: "resource_element_statistics 1 2 ?G
      = \<lparr>total_res = 24, dmrs_res = 4, pdcch_res = 0, pdsch_res = 20, empty_res = 0\<rparr>"
    by (simp add: resource_element_statistics_def count_cells_def)
  from resource_statistics_total [of 1 2 True False True "''Type2''" "[0]" 1] e s
  show ?thesis by simp
qed

section \<open>The DMRS mask\<close>

lemma cells_eq_map:
  assumes "cells g n w F"
  shows "g = map (\<lambda>r. map (F r) [0..<w]) [0..<n]"
  using assms by (auto simp: cells_def intro!: nth_equalityI)

lemma count_cells_map:
  "count_cells v (map f [0..<n]) = (\<Sum>r<n. int (length (filter (\<lambda>x. x = v) (f r))))"
  by (simp add: count_cells_def comp_def sum_list_sum_nth atLeast0LessThan)

lemma type2_row_count:
  "length (filter (\<lambda>x. x = 1) (map (\<lambda>c. if c mod 6 < 2 then 1 else (0::int)) [0..<120])) = 40"
  by code_simp

lemma zero_row_count:
  "filter (\<lambda>x. x = 1) (map (\<lambda>c. 0::int) xs) = []"
  by (induction xs) auto

text \<open>
  Claim C9. The \<^verbatim>\<open>Type2\<close> mask for 10 resource blocks, at least 3 symbols and the
  symbol indices \<^verbatim>\<open>[2]\<close> is built; it has \<open>num_symbols\<close> rows of 120 cells, its cell
  \<open>(r, c)\<close> is 1 exactly for \<open>r = 2\<close> and \<open>c mod 6 < 2\<close> (positions 0 and 1 of each of the 20
  groups of six subcarriers), and it has 40 cells equal to 1. The loop over the subcarriers
  of a row, for any number \<open>num_sc\<close> of subcarriers, marks positions 0 and 1 of the group
  that starts at \<open>6 * k\<close> exactly when \<open>6 * k + 2 \<le> num_sc\<close>: a last, partial group is
  marked only if at least 2 subcarriers remain.
\<close>

theorem dmrs_type2_mask:
  "(3 \<le> num_symbols \<longrightarrow>
      (\<exists>g. create_dmrs_pattern 10 num_symbols ''Type2'' [2] = Inr g
         \<and> cells g (nat num_symbols) 120 (\<lambda>r c. if r = 2 \<and> c mod 6 < 2 then 1 else 0)
         \<and> count_cells 1 g = 40))
   \<and> (- int (length h) \<le> i \<and> i < int (length h) \<longrightarrow>
        (\<exists>h'. dmrs_type2_row num_sc i h = Inr h'
           \<and> marked h h' (\<lambda>r c. r = py_row (int (length h)) i
                                  \<and> c mod 6 < 2 \<and> int (6 * (c div 6)) + 2 \<le> num_sc)))"
proof (intro conjI impI)
  assume ns: "3 \<le> num_symbols"
  let ?F = "\<lambda>r c. if r = 2 \<and> c mod 6 < 2 then 1 else (0::int)"
  obtain g where g: "create_dmrs_pattern 10 num_symbols ''Type2'' [2] = Inr g"
    and c: "cells g (nat num_symbols) (nat (10 * 12))
              (\<lambda>r c. if (\<exists>i\<in>set [2]. i < num_symbols \<and> py_row num_symbols i = r)
                          \<and> dmrs_subcarrier ''Type2'' c then 1 else 0)"
    using create_dmrs_pattern_cells [of 10 num_symbols "[2]" "''Type2''"] ns by auto
  have c': "cells g (nat num_symbols) 120 ?F"
    using c ns by (simp add: cells_def py_row_def dmrs_subcarrier_def)
  have "g = map (\<lambda>r. map (?F r) [0..<120]) [0..<nat num_symbols]"
    by (rule cells_eq_map [OF c'])
  then have "count_cells 1 g
        = (\<Sum>r<nat num_symbols. int (length (filter (\<lambda>x. x = 1) (map (?F r) [0..<120]))))"
    by (simp only: count_cells_map)
  also have "\<dots> = (\<Sum>r<nat num_symbols. if r = 2 then 40 else 0)"
  proof (rule sum.cong [OF refl])
    fix r :: nat
    show "int (length (filter (\<lambda>x. x = 1) (map (?F r) [0..<120]))) = (if r = 2 then 40 else 0)"
      using type2_row_count zero_row_count [of "[0..<120]"] by (cases "r = 2") simp_all
  qed
  also have "\<dots> = 40" using ns by simp
  finally have "count_cells 1 g = 40" .
  with g c' show "\<exists>g. create_dmrs_pattern 10 num_symbols ''Type2'' [2] = Inr g
         \<and> cells g (nat num_symbols) 120 ?F \<and> count_cells 1 g = 40"
    by blast
next
  assume "- int (length h) \<le> i \<and> i < int (length h)"
  then show "\<exists>h'. dmrs_type2_row num_sc i h = Inr h'
           \<and> marked h h' (\<lambda>r c. r = py_row (int (length h)) i
                                  \<and> c mod 6 < 2 \<and> int (6 * (c div 6)) + 2 \<le> num_sc)"
    using dmrs_type2_row_marked [of h i num_sc] by (simp add: type2_subcarrier_def)
qed

theorem dmrs_type2_mask_witness:
  "(3::int) \<le> 3
   \<and> create_dmrs_pattern 10 3 ''Type2'' [2] =
       Inr [replicate 120 0, replicate 120 0,
            concat (replicate 20 [1, 1, 0, 0, 0, 0])]
   \<and> count_cells 1 [replicate 120 0, replicate 120 0,
            concat (replicate 20 [1, 1, 0, 0, 0, 0])] = 40
   \<and> - int (length [replicate 7 (0::int)]) \<le> 0 \<and> (0::int) < int (length [replicate 7 (0::int)])
   \<and> dmrs_type2_row 7 0 [replicate 7 0] = Inr [[1, 1, 0, 0, 0, 0, 0]]
   \<and> dmrs_type2_row 8 0 [replicate 8 0] = Inr [[1, 1, 0, 0, 0, 0, 1, 1]]"
proof -
  let ?G = "[replicate 120 0, replicate 120 0, concat (replicate 20 [1, 1, 0, 0, 0, 0 :: int])]"
  have e: "create_dmrs_pattern 10 3 ''Type2'' [2] = Inr ?G"
    by code_simp
  have r: "dmrs_type2_row 7 0 [replicate 7 0] = Inr [[1, 1, 0, 0, 0, 0, 0]]"
    "dmrs_type2_row 8 0 [replicate 8 0] = Inr [[1, 1, 0, 0, 0, 0, 1, 1]]"
    by code_simp+
  from dmrs_type2_mask [of 3 "[replicate 7 0]" 0 7] e
  have "count_cells 1 ?G = 40" by simp
  with e r show ?thesis by simp
qed

text \<open>
  Claim C10. A negative symbol index \<open>i\<close> with \<open>- num_symbols \<le> i < 0\<close> in the list of
  positions is not ignored: it passes the test \<^verbatim>\<open>sym_idx < num_symbols\<close> and the pattern
  of the DMRS type is written to the row \<open>num_symbols + i\<close>, counted from the end as
  Python's indexing does. (No index of the list lies below \<open>- num_symbols\<close>; such an index
  raises \<^verbatim>\<open>IndexError\<close>.)
\<close>

theorem negative_dmrs_index:
  assumes "0 \<le> num_rbs" "i \<in> set dmrs_positions" "- num_symbols \<le> i" "i < 0"
    and "\<forall>j\<in>set dmrs_positions. - num_symbols \<le> j"
    and "dmrs_type = ''Type1'' \<or> dmrs_type = ''Type2''"
    and "c < nat (num_rbs * 12)"
  shows "\<exists>g. create_dmrs_pattern num_rbs num_symbols dmrs_type dmrs_positions = Inr g
           \<and> nat (num_symbols + i) < length g
           \<and> c < length (g ! nat (num_symbols + i))
           \<and> g ! nat (num_symbols + i) ! c = (if dmrs_subcarrier dmrs_type c then 1 else 0)"
proof -
  from assms(3,4) have ns: "0 \<le> num_symbols" by linarith
  obtain g where g: "create_dmrs_pattern num_rbs num_symbols dmrs_type dmrs_positions = Inr g"
    and c: "cells g (nat num_symbols) (nat (num_rbs * 12))
              (\<lambda>r c. if (\<exists>i\<in>set dmrs_positions. i < num_symbols \<and> py_row num_symbols i = r)
                          \<and> dmrs_subcarrier dmrs_type c then 1 else 0)"
    using create_dmrs_pattern_cells [OF assms(1) ns assms(5)] by blast
  have r: "nat (num_symbols + i) < nat num_symbols" using assms(3,4) by linarith
  have "i < num_symbols \<and> py_row num_symbols i = nat (num_symbols + i)"
    using assms(3,4) ns by (simp add: py_row_def add.commute)
  with assms(2) have "\<exists>j\<in>set dmrs_positions. j < num_symbols
                        \<and> py_row num_symbols j = nat (num_symbols + i)" by blast
  with c r assms(7) g show ?thesis by (simp add: cells_def)
qed

theorem negative_dmrs_index_witness:
  "(0::int) \<le> 1 \<and> (- 1 :: int) \<in> set [- 1] \<and> (- 3 :: int) \<le> - 1 \<and> (- 1 :: int) < 0
   \<and> (0::nat) < nat (1 * 12)
   \<and> create_dmrs_pattern 1 3 ''Type1'' [- 1] =
       Inr [[0, 0, 0, 0, 0, 0, 0, 0, 0, 0, 0, 0],
            [0, 0, 0, 0, 0, 0, 0, 0, 0, 0, 0, 0],
            [1, 0, 1, 0, 1, 0, 1, 0, 1, 0, 1, 0]]
   \<and> [[0, 0, 0, 0, 0, 0, 0, 0, 0, 0, 0, 0],
       [0, 0, 0, 0, 0, 0, 0, 0, 0, 0, 0, 0],
       [1, 0, 1, 0, 1, 0, 1, 0, 1, 0, 1, 0 :: int]] ! nat (3 + - 1) ! 0 = 1"
proof -
  let ?G = "[[0, 0, 0, 0, 0, 0, 0, 0, 0, 0, 0, 0],
             [0, 0, 0, 0, 0, 0, 0, 0, 0, 0, 0, 0],
             [1, 0, 1, 0, 1, 0, 1, 0, 1, 0, 1, 0 :: int]]"
  have e: "create_dmrs_pattern 1 3 ''Type1'' [- 1] = Inr ?G"
    by code_simp
  from negative_dmrs_index [of 1 "- 1" "[- 1]" 3 "''Type1''" 0] e
  have "?G ! nat (3 + - 1) ! 0 = 1" by (simp add: dmrs_subcarrier_def)
  with e show ?thesis by simp
qed

section \<open>Float rounding\<close>

lemma round_half_even_error: "\<bar>rat_of_int (round_half_even r) - r\<bar> \<le> 1 / 2"
proof -
  have "rat_of_int \<lfloor>r\<rfloor> \<le> r" "r < rat_of_int \<lfloor>r\<rfloor> + 1" by linarith+
  then show ?thesis
    by (auto simp: round_half_even_def Let_def)
qed

lemma float_exponent_bounds:
  assumes "x \<noteq> 0"
  shows "2 powi float_exponent x \<le> \<bar>x\<bar> \<and> \<bar>x\<bar> < 2 powi (float_exponent x + 1)"
proof -
  obtain a b where q: "quotient_of \<bar>x\<bar> = (a, b)" by (cases "quotient_of \<bar>x\<bar>")
  then have b: "0 < b" and x: "\<bar>x\<bar> = rat_of_int a / rat_of_int b"
    using quotient_of_denom_pos quotient_of_div by blast+
  from assms have "0 < \<bar>x\<bar>" by simp
  then have "0 < rat_of_int a / rat_of_int b" unfolding x .
  with b have a: "0 < a" by (simp add: zero_less_divide_iff)
  let ?la = "bitlen a" and ?lb = "bitlen b"
  from bitlen_bounds [OF a] have ba: "2 ^ nat (?la - 1) \<le> a" "a < 2 ^ nat ?la" by auto
  from bitlen_bounds [OF b] have bb: "2 ^ nat (?lb - 1) \<le> b" "b < 2 ^ nat ?lb" by auto
  have "?la \<noteq> 0" "?lb \<noteq> 0" using a b by (simp_all add: bitlen_eq_zero_iff)
  with bitlen_nonneg [of a] bitlen_nonneg [of b] have la: "1 \<le> ?la" and lb: "1 \<le> ?lb"
    by linarith+
  have pw: "(2::rat) powi k = rat_of_int (2 ^ nat k)" if "0 \<le> k" for k
    using that by (simp add: power_int_def)
  have ra: "(2::rat) powi (?la - 1) \<le> rat_of_int a" "rat_of_int a < 2 powi ?la"
    using ba la unfolding pw [of "?la - 1", OF diff_ge_0_iff_ge [THEN iffD2, OF la]]
      pw [OF bitlen_nonneg] by (simp_all only: of_int_le_iff of_int_less_iff)
  have rb: "(2::rat) powi (?lb - 1) \<le> rat_of_int b" "rat_of_int b < 2 powi ?lb"
    using bb lb unfolding pw [of "?lb - 1", OF diff_ge_0_iff_ge [THEN iffD2, OF lb]]
      pw [OF bitlen_nonneg] by (simp_all only: of_int_le_iff of_int_less_iff)
  have pos: "(0::rat) < 2 powi k" for k by simp
  have up: "\<bar>x\<bar> < 2 powi (?la - ?lb + 1)"
  proof -
    have "\<bar>x\<bar> < 2 powi ?la / 2 powi (?lb - 1)"
      unfolding x using ra(2) rb(1) a pos [of "?lb - 1"]
      by (intro frac_less) auto
    also have "\<dots> = 2 powi (?la - (?lb - 1))" by (simp add: power_int_diff)
    finally show ?thesis by (simp add: algebra_simps)
  qed
  have lo: "2 powi (?la - ?lb - 1) \<le> \<bar>x\<bar>"
  proof -
    have "(2::rat) powi (?la - 1 - ?lb) = 2 powi (?la - 1) / 2 powi ?lb"
      by (simp add: power_int_diff)
    also have "\<dots> \<le> \<bar>x\<bar>"
      unfolding x using ra(1) rb(2) a b
      by (intro frac_le) auto
    finally show ?thesis by (simp add: algebra_simps)
  qed
  show ?thesis
  proof (cases "2 powi (?la - ?lb) \<le> \<bar>x\<bar>")
    case True
    then have "float_exponent x = ?la - ?lb" by (simp add: float_exponent_def q)
    with True up show ?thesis by simp
  next
    case False
    then have "float_exponent x = ?la - ?lb - 1" by (simp add: float_exponent_def q)
    with False lo show ?thesis by simp
  qed
qed

lemma py_float_error:
  assumes "\<bar>x\<bar> \<le> B" "1 / 2 ^ 1022 \<le> B"
  shows "\<bar>py_float x - x\<bar> \<le> B / 2 ^ 53"
proof (cases "x = 0")
  case True
  with assms show ?thesis by (simp add: py_float_def)
next
  case False
  let ?e = "max (float_exponent x) (- 1022)"
  let ?q = "(2::rat) powi (?e - 52)"
  have q: "0 < ?q" by simp
  have "py_float x - x = (rat_of_int (round_half_even (x / ?q)) - x / ?q) * ?q"
    using False q by (simp add: py_float_def Let_def algebra_simps)
  then have "\<bar>py_float x - x\<bar> = \<bar>rat_of_int (round_half_even (x / ?q)) - x / ?q\<bar> * ?q"
    using q by (simp add: abs_mult)
  also have "\<dots> \<le> (1 / 2) * ?q"
    using round_half_even_error [of "x / ?q"] q by (intro mult_right_mono) auto
  also have "\<dots> = 2 powi ?e / 2 ^ 53"
    by (simp add: power_int_diff)
  also have "\<dots> \<le> B / 2 ^ 53"
  proof -
    have "(2::rat) powi ?e \<le> B"
    proof (cases "- 1022 \<le> float_exponent x")
      case True
      then have "?e = float_exponent x" by simp
      with float_exponent_bounds [OF False] assms(1) show ?thesis by simp
    next
      case False
      then have "?e = - 1022" by simp
      with assms(2) show ?thesis by (simp add: power_int_def field_simps)
    qed
    then show ?thesis by (simp add: divide_right_mono)
  qed
  finally show ?thesis .
qed

section \<open>The TDD pattern\<close>

lemma append_times_replicate: "append_times n x xs = xs @ replicate n x"
  by (induction n arbitrary: xs) (simp_all add: replicate_append_same)

lemma pad_flexible_replicate:
  "pad_flexible n sp = sp @ replicate (nat (n - int (length sp))) ''F''"
proof (induction n sp rule: pad_flexible.induct)
  case (1 n sp)
  show ?case
  proof (cases "int (length sp) < n")
    case True
    then have "nat (n - int (length sp)) = Suc (nat (n - int (length (sp @ [''F'']))))"
      by simp
    with True "1" show ?thesis
      by (subst pad_flexible.simps) (simp add: replicate_append_same)
  next
    case False
    then show ?thesis by (subst pad_flexible.simps) simp
  qed
qed

lemma tdd_configuration_result:
  assumes "get_slot_params scs_tdd = Inr params_tdd"
  shows "tdd_configuration p num_dl_slots num_dl_symbols num_ul_slots num_ul_symbols scs_tdd =
     Inr \<lparr>slots_in_period = py_int (p / slot_duration_ms params_tdd),
          slot_pattern =
            replicate (nat num_dl_slots) ''D''
            @ (if 0 < num_dl_symbols \<or> 0 < num_ul_symbols then [''X''] else [])
            @ replicate (nat num_ul_slots) ''U''
            @ replicate (nat (py_int (p / slot_duration_ms params_tdd)
                  - (int (nat num_dl_slots)
                     + (if 0 < num_dl_symbols \<or> 0 < num_ul_symbols then 1 else 0)
                     + int (nat num_ul_slots)))) ''F'',
          guard = (if 0 < num_dl_symbols \<or> 0 < num_ul_symbols
                   then Some (14 - num_dl_symbols - num_ul_symbols) else None),
          partial = (if 0 < num_dl_symbols \<or> 0 < num_ul_symbols
                     then Some (''D'' @ str_int num_dl_symbols @ ''G''
                                @ str_int (14 - num_dl_symbols - num_ul_symbols)
                                @ ''U'' @ str_int num_ul_symbols)
                     else None)\<rparr>"
  using assms
  by (simp add: tdd_configuration_def Let_def append_times_replicate pad_flexible_replicate
        add.commute add.left_commute)

lemma py_int_ge_one: "1 \<le> q \<Longrightarrow> py_int q = \<lfloor>q\<rfloor> \<and> 1 \<le> py_int q"
  unfolding py_int_def by (simp add: le_floor_iff)

lemma count_list_replicate: "count_list (replicate n y) x = (if x = y then n else 0)"
  by (induction n) auto

lemma py_int_of_int: "py_int (rat_of_int n) = n"
  by (simp add: py_int_def)

lemma py_take_nonneg: "0 \<le> n \<Longrightarrow> py_take n xs = take (nat n) xs"
  by (simp add: py_take_def)

lemma tdd_page_result:
  assumes "tdd_configuration p num_dl_slots num_dl_symbols num_ul_slots num_ul_symbols
             scs_tdd = Inr t"
    and "slots_in_period t \<noteq> 0"
  shows "\<exists>d. tdd_page p num_dl_slots num_dl_symbols num_ul_slots num_ul_symbols scs_tdd
               = Inr (t, d)
           \<and> resource_distribution (slots_in_period t) num_dl_slots num_dl_symbols
                num_ul_slots num_ul_symbols = Inr d"
  using assms by (simp add: tdd_page_def resource_distribution_def Let_def)

lemma resource_distribution_percent:
  "resource_distribution n num_dl_slots num_dl_symbols num_ul_slots num_ul_symbols =
     (if n = 0 then Inl ZeroDivisionError
      else Inr \<lparr>total_dl_symbols = num_dl_slots * 14 + num_dl_symbols,
                total_ul_symbols = num_ul_slots * 14 + num_ul_symbols,
                total_symbols = n * 14,
                dl_pct = py_float (percent_of (num_dl_slots * 14 + num_dl_symbols) n),
                ul_pct = py_float (percent_of (num_ul_slots * 14 + num_ul_symbols) n),
                guard_pct =
                  float_sub (float_sub 100
                      (py_float (percent_of (num_dl_slots * 14 + num_dl_symbols) n)))
                    (py_float (percent_of (num_ul_slots * 14 + num_ul_symbols) n))\<rparr>)"
  by (simp add: resource_distribution_def Let_def percent_of_def float_div_int_def)

lemma remainder_percent:
  assumes "n \<noteq> 0"
  shows "100 - percent_of a n - percent_of b n = percent_of (14 * n - a - b) n"
  using assms by (simp add: percent_of_def field_simps)

lemma percent_of_bounds:
  assumes "0 < n" "0 \<le> a" "a \<le> 14 * n"
  shows "0 \<le> percent_of a n \<and> percent_of a n \<le> 100"
  using assms by (simp add: percent_of_def field_simps)

lemma remainder_float_error:
  assumes "0 \<le> x" "x \<le> 100" "0 \<le> y" "y \<le> 100"
  shows "\<bar>float_sub (float_sub 100 (py_float x)) (py_float y) - (100 - x - y)\<bar> \<le> 1 / 2 ^ 44"
proof -
  define u :: rat where "u = 1 / 2 ^ 53"
  have u: "0 < u" "402 * u \<le> 1 / 2 ^ 44" "301 * u \<le> 1" by (simp_all add: u_def)
  have small: "(1::rat) / 2 ^ 1022 \<le> 100" "(1::rat) / 2 ^ 1022 \<le> 101"
    by (simp_all add: field_simps)
  let ?D = "py_float x" and ?U = "py_float y"
  let ?t = "float_sub 100 ?D"
  let ?G = "float_sub ?t ?U"
  from assms have "\<bar>x\<bar> \<le> 100" "\<bar>y\<bar> \<le> 100" by linarith+
  then have d: "\<bar>?D - x\<bar> \<le> 100 * u" and e: "\<bar>?U - y\<bar> \<le> 100 * u"
    using py_float_error [OF _ small(1)] by (simp_all add: u_def)
  from d assms u have "\<bar>100 - ?D\<bar> \<le> 101" by linarith
  then have t: "\<bar>?t - (100 - ?D)\<bar> \<le> 101 * u"
    using py_float_error [OF _ small(2)] by (simp add: u_def float_sub_def)
  from t d e assms u have "\<bar>?t - ?U\<bar> \<le> 101" by linarith
  then have g: "\<bar>?G - (?t - ?U)\<bar> \<le> 101 * u"
    using py_float_error [OF _ small(2)] by (simp add: u_def float_sub_def)
  from g t d e have "\<bar>?G - (100 - x - y)\<bar> \<le> 402 * u" by linarith
  with u(2) show ?thesis by linarith
qed

lemma length_py_take:
  "0 \<le> n \<Longrightarrow> n \<le> int (length xs) \<Longrightarrow> int (length (py_take n xs)) = n"
  by (simp add: py_take_def)

lemma X_in_take:
  "''X'' \<in> set (take m (replicate a ''D'' @ [''X''] @ rest)) \<longleftrightarrow> a < m"
  by (cases "a < m") (auto simp: take_Cons' dest: in_set_takeD)

text \<open>
  Claim C2, as amended. Let the subcarrier spacing be supported and the quotient of the
  periodicity by the slot duration be a whole number \<open>n \<ge> 1\<close>. Then the page does not fail,
  the slot count is \<open>n\<close>, and the pattern it shows is \<^verbatim>\<open>slot_pattern[:n]\<close>. If the
  \<open>num_dl_slots\<close> slots \<^verbatim>\<open>D\<close>, the slot \<^verbatim>\<open>X\<close> (present if and only if \<open>num_dl_symbols > 0\<close> or
  \<open>num_ul_symbols > 0\<close>) and the \<open>num_ul_slots\<close> slots \<^verbatim>\<open>U\<close> fit into \<open>n\<close> slots, the pattern
  shown is exactly these labels in this order followed by labels \<^verbatim>\<open>F\<close> up to length \<open>n\<close>;
  if they do not fit, it is the first \<open>n\<close> of these labels. The split of the \<^verbatim>\<open>X\<close> slot is
  in the variables of the page: \<open>guard = 14 - num_dl_symbols - num_ul_symbols\<close> and the text
  \<^verbatim>\<open>D<dl>G<guard>U<ul>\<close>. For a periodicity of 5 ms at 30 kHz (slot duration 0.5 ms),
  7 DL slots, 10 DL symbols, 2 UL slots and 2 UL symbols the pattern shown has length 10:
  seven \<^verbatim>\<open>D\<close>, one \<^verbatim>\<open>X\<close> with the split 10 / 2 / 2, two \<^verbatim>\<open>U\<close> and no \<^verbatim>\<open>F\<close>.
\<close>

theorem tdd_pattern_sequence:
  assumes "get_slot_params scs_tdd = Inr params_tdd"
    and "rat_of_int n = p / slot_duration_ms params_tdd"
    and "1 \<le> n"
  shows "(\<exists>t d. tdd_page p num_dl_slots num_dl_symbols num_ul_slots num_ul_symbols
                   scs_tdd = Inr (t, d)
            \<and> slots_in_period t = n
            \<and> guard t = (if 0 < num_dl_symbols \<or> 0 < num_ul_symbols
                          then Some (14 - num_dl_symbols - num_ul_symbols) else None)
            \<and> partial t = (if 0 < num_dl_symbols \<or> 0 < num_ul_symbols
                            then Some (''D'' @ str_int num_dl_symbols @ ''G''
                                       @ str_int (14 - num_dl_symbols - num_ul_symbols)
                                       @ ''U'' @ str_int num_ul_symbols)
                            else None)
            \<and> (int (nat num_dl_slots)
                  + (if 0 < num_dl_symbols \<or> 0 < num_ul_symbols then 1 else 0)
                  + int (nat num_ul_slots) \<le> n \<longrightarrow>
                 shown_pattern t =
                   replicate (nat num_dl_slots) ''D''
                   @ (if 0 < num_dl_symbols \<or> 0 < num_ul_symbols then [''X''] else [])
                   @ replicate (nat num_ul_slots) ''U''
                   @ replicate (nat (n - (int (nat num_dl_slots)
                          + (if 0 < num_dl_symbols \<or> 0 < num_ul_symbols then 1 else 0)
                          + int (nat num_ul_slots)))) ''F''
                 \<and> int (length (shown_pattern t)) = n)
            \<and> (n < int (nat num_dl_slots)
                  + (if 0 < num_dl_symbols \<or> 0 < num_ul_symbols then 1 else 0)
                  + int (nat num_ul_slots) \<longrightarrow>
                 shown_pattern t =
                   take (nat n)
                     (replicate (nat num_dl_slots) ''D''
                      @ (if 0 < num_dl_symbols \<or> 0 < num_ul_symbols then [''X''] else [])
                      @ replicate (nat num_ul_slots) ''U'')))
         \<and> map_sum id (\<lambda>(t, d). (slots_in_period t, shown_pattern t, guard t, partial t))
              (tdd_page 5 7 10 2 2 30) =
             Inr (10, [''D'', ''D'', ''D'', ''D'', ''D'', ''D'', ''D'', ''X'', ''U'', ''U''],
                  Some 2, Some ''D10G2U2'')"
proof (rule conjI)
  show "map_sum id (\<lambda>(t, d). (slots_in_period t, shown_pattern t, guard t, partial t))
              (tdd_page 5 7 10 2 2 30) =
             Inr (10, [''D'', ''D'', ''D'', ''D'', ''D'', ''D'', ''D'', ''X'', ''U'', ''U''],
                  Some 2, Some ''D10G2U2'')"
    by code_simp
next
  let ?x = "if 0 < num_dl_symbols \<or> 0 < num_ul_symbols then 1 else (0::int)"
  let ?k = "int (nat num_dl_slots) + ?x + int (nat num_ul_slots)"
  let ?dxu = "replicate (nat num_dl_slots) ''D''
            @ (if 0 < num_dl_symbols \<or> 0 < num_ul_symbols then [''X''] else [])
            @ replicate (nat num_ul_slots) ''U''"
  let ?pat = "replicate (nat num_dl_slots) ''D''
            @ (if 0 < num_dl_symbols \<or> 0 < num_ul_symbols then [''X''] else [])
            @ replicate (nat num_ul_slots) ''U''
            @ replicate (nat (n - ?k)) ''F''"
  let ?g = "if 0 < num_dl_symbols \<or> 0 < num_ul_symbols
                          then Some (14 - num_dl_symbols - num_ul_symbols) else None"
  let ?s = "if 0 < num_dl_symbols \<or> 0 < num_ul_symbols
                            then Some (''D'' @ str_int num_dl_symbols @ ''G''
                                       @ str_int (14 - num_dl_symbols - num_ul_symbols)
                                       @ ''U'' @ str_int num_ul_symbols)
                            else None"
  have n: "py_int (p / slot_duration_ms params_tdd) = n"
    unfolding assms(2) [symmetric] by (rule py_int_of_int)
  define t where "t = \<lparr>slots_in_period = n, slot_pattern = ?pat, guard = ?g, partial = ?s\<rparr>"
  have t: "tdd_configuration p num_dl_slots num_dl_symbols num_ul_slots
      num_ul_symbols scs_tdd = Inr t"
    using tdd_configuration_result [OF assms(1), of p num_dl_slots num_dl_symbols
        num_ul_slots num_ul_symbols] unfolding n t_def .
  have sel: "slots_in_period t = n" "slot_pattern t = ?pat" "guard t = ?g" "partial t = ?s"
    by (simp_all add: t_def)
  from assms(3) sel(1) have "slots_in_period t \<noteq> 0" by simp
  from tdd_page_result [OF t this] obtain d where
    page: "tdd_page p num_dl_slots num_dl_symbols num_ul_slots num_ul_symbols scs_tdd
             = Inr (t, d)" by blast
  have shown: "shown_pattern t = take (nat n) ?pat"
    using assms(3) by (simp add: shown_pattern_def sel(1,2) py_take_nonneg)
  have fit: "shown_pattern t = ?pat \<and> int (length (shown_pattern t)) = n" if k: "?k \<le> n"
  proof -
    have "int (length ?pat) = ?k + int (nat (n - ?k))" by simp
    also have "\<dots> = n" using k by linarith
    finally have li: "int (length ?pat) = n" .
    then have len: "length ?pat = nat n" by linarith
    have "take (length ?pat) ?pat = ?pat" by (rule take_all) (rule order_refl)
    then have "take (nat n) ?pat = ?pat" unfolding len .
    with shown have s1: "shown_pattern t = ?pat" by (rule trans)
    show ?thesis
    proof
      show "shown_pattern t = ?pat" by (rule s1)
      show "int (length (shown_pattern t)) = n" unfolding s1 by (rule li)
    qed
  qed
  have cut: "shown_pattern t = take (nat n) ?dxu" if k: "n < ?k"
  proof -
    from k have "nat (n - ?k) = 0" by linarith
    then have "?pat = ?dxu" by (simp only: replicate_0 append_Nil2)
    with shown show ?thesis by (simp only:)
  qed
  show "\<exists>t d. tdd_page p num_dl_slots num_dl_symbols num_ul_slots num_ul_symbols
                   scs_tdd = Inr (t, d)
            \<and> slots_in_period t = n
            \<and> guard t = ?g
            \<and> partial t = ?s
            \<and> (?k \<le> n \<longrightarrow> shown_pattern t = ?pat \<and> int (length (shown_pattern t)) = n)
            \<and> (n < ?k \<longrightarrow> shown_pattern t = take (nat n) ?dxu)"
    using page sel(1,3,4) fit cut by blast
qed

theorem tdd_pattern_sequence_witness:
  "get_slot_params 30 =
     Inr \<lparr>mu = 1, slot_duration_ms = 1 / 2, slots_per_subframe = 2,
          slots_per_frame = 20, symbols_per_slot = 14\<rparr>
   \<and> rat_of_int 4 = 2 / (1 / 2) \<and> (1::int) \<le> 4
   \<and> int (nat 1) + 1 + int (nat 1) \<le> 4
   \<and> map_sum id (\<lambda>(t, d). (slots_in_period t, shown_pattern t, guard t, partial t))
        (tdd_page 2 1 10 1 2 30) =
       Inr (4, [''D'', ''X'', ''U'', ''F''], Some 2, Some ''D10G2U2'')"
proof -
  have g: "get_slot_params 30 =
     Inr \<lparr>mu = 1, slot_duration_ms = 1 / 2, slots_per_subframe = 2,
          slots_per_frame = 20, symbols_per_slot = 14\<rparr>"
    by (simp add: get_slot_params_def mu_map_cases)
  have s: "str_int 10 = ''10''" "str_int 2 = ''2''" by code_simp+
  from tdd_pattern_sequence [OF g, of 4 2 1 10 1 2]
  have "map_sum id (\<lambda>(t, d). (slots_in_period t, shown_pattern t, guard t, partial t))
        (tdd_page 2 1 10 1 2 30) =
       Inr (4, [''D'', ''X'', ''U'', ''F''], Some 2, Some ''D10G2U2'')"
    by (auto simp: s numeral_eq_Suc)
  with g show ?thesis by simp
qed

text \<open>
  The statement of C2 as the specification has it (the sequence of all the \<^verbatim>\<open>D\<close>, \<^verbatim>\<open>X\<close>
  and \<^verbatim>\<open>U\<close> slots whenever the slot count is whole and
  \<open>num_dl_symbols + num_ul_symbols \<le> 14\<close>) does not hold: with the initial values of the
  page (1 ms at 30 kHz, 7 DL slots, 10 DL symbols, 2 UL slots, 2 UL symbols) the slot
  count is 2 and the pattern shown is two \<^verbatim>\<open>D\<close> slots.
\<close>

theorem tdd_pattern_sequence_counterexample:
  "integral (1 / (1 / 2)) \<and> (10::int) + 2 \<le> 14
   \<and> map_sum id (\<lambda>(t, d). (slots_in_period t, shown_pattern t))
        (tdd_page 1 7 10 2 2 30) = Inr (2, [''D'', ''D''])
   \<and> [''D'', ''D''] \<noteq>
       replicate 7 ''D'' @ [''X''] @ replicate 2 ''U'' @ replicate (nat (2 - (7 + 1 + 2))) ''F''"
  by code_simp

text \<open>
  Claim C3, as amended. The page has no check of the partial slot. For
  \<open>num_dl_symbols + num_ul_symbols > 14\<close>, a supported subcarrier spacing and a quotient of
  the periodicity by the slot duration of at least 1, the page does not fail: the guard
  of the partial slot is the negative number \<open>14 - num_dl_symbols - num_ul_symbols\<close>, the
  list of slots holds one \<^verbatim>\<open>X\<close> after the \<^verbatim>\<open>D\<close> slots, and the \<^verbatim>\<open>X\<close> slot is part of the
  pattern shown exactly when \<open>num_dl_slots\<close> is below the slot count.
\<close>

theorem tdd_negative_guard:
  assumes "get_slot_params scs_tdd = Inr params_tdd"
    and "14 < num_dl_symbols + num_ul_symbols"
    and "1 \<le> p / slot_duration_ms params_tdd"
  shows "\<exists>t d. tdd_page p num_dl_slots num_dl_symbols num_ul_slots num_ul_symbols
                  scs_tdd = Inr (t, d)
           \<and> guard t = Some (14 - num_dl_symbols - num_ul_symbols)
           \<and> 14 - num_dl_symbols - num_ul_symbols < 0
           \<and> slot_pattern t =
                replicate (nat num_dl_slots) ''D'' @ [''X'']
                @ replicate (nat num_ul_slots) ''U''
                @ replicate (nat (slots_in_period t
                      - (int (nat num_dl_slots) + 1 + int (nat num_ul_slots)))) ''F''
           \<and> shown_pattern t = take (nat (slots_in_period t)) (slot_pattern t)
           \<and> (''X'' \<in> set (shown_pattern t) \<longleftrightarrow> int (nat num_dl_slots) < slots_in_period t)"
proof -
  let ?n = "py_int (p / slot_duration_ms params_tdd)"
  let ?pat = "replicate (nat num_dl_slots) ''D'' @ [''X'']
                @ replicate (nat num_ul_slots) ''U''
                @ replicate (nat (?n - (int (nat num_dl_slots) + 1 + int (nat num_ul_slots)))) ''F''"
  have n: "1 \<le> ?n" using py_int_ge_one [OF assms(3)] by blast
  from assms(2) have x: "0 < num_dl_symbols \<or> 0 < num_ul_symbols" by linarith
  define t where "t = \<lparr>slots_in_period = ?n, slot_pattern = ?pat,
      guard = Some (14 - num_dl_symbols - num_ul_symbols),
      partial = Some (''D'' @ str_int num_dl_symbols @ ''G''
                      @ str_int (14 - num_dl_symbols - num_ul_symbols)
                      @ ''U'' @ str_int num_ul_symbols)\<rparr>"
  have t: "tdd_configuration p num_dl_slots num_dl_symbols num_ul_slots
      num_ul_symbols scs_tdd = Inr t"
    unfolding tdd_configuration_result [OF assms(1)] t_def using x by simp
  have sel: "slots_in_period t = ?n" "slot_pattern t = ?pat"
    "guard t = Some (14 - num_dl_symbols - num_ul_symbols)"
    by (simp_all add: t_def)
  from n sel(1) have "slots_in_period t \<noteq> 0" by simp
  from tdd_page_result [OF t this] obtain d where
    page: "tdd_page p num_dl_slots num_dl_symbols num_ul_slots num_ul_symbols scs_tdd
             = Inr (t, d)" by blast
  have shown: "shown_pattern t = take (nat (slots_in_period t)) (slot_pattern t)"
    using n by (simp add: shown_pattern_def sel(1) py_take_nonneg)
  have "''X'' \<in> set (take (nat ?n) ?pat) \<longleftrightarrow> nat num_dl_slots < nat ?n"
    by (rule X_in_take)
  also have "\<dots> \<longleftrightarrow> int (nat num_dl_slots) < ?n" using n by linarith
  finally have "''X'' \<in> set (shown_pattern t) \<longleftrightarrow> int (nat num_dl_slots) < slots_in_period t"
    unfolding shown sel(1,2) .
  note x_shown = this
  have c2: "14 - num_dl_symbols - num_ul_symbols < 0" using assms(2) by linarith
  have c3: "slot_pattern t =
                replicate (nat num_dl_slots) ''D'' @ [''X'']
                @ replicate (nat num_ul_slots) ''U''
                @ replicate (nat (slots_in_period t
                      - (int (nat num_dl_slots) + 1 + int (nat num_ul_slots)))) ''F''"
    unfolding sel(1) by (rule sel(2))
  from page sel(3) c2 c3 shown x_shown show ?thesis by blast
qed

theorem tdd_negative_guard_witness:
  "get_slot_params 15 =
     Inr \<lparr>mu = 0, slot_duration_ms = 1, slots_per_subframe = 1,
          slots_per_frame = 10, symbols_per_slot = 14\<rparr>
   \<and> (14::int) < 9 + 8 \<and> (1::rat) \<le> 2 / 1
   \<and> map_sum id (\<lambda>(t, d). (slots_in_period t, shown_pattern t, guard t, partial t))
        (tdd_page 2 0 9 0 8 15) =
       Inr (2, [''X'', ''F''], Some (- 3), Some ''D9G-3U8'')"
proof -
  have g: "get_slot_params 15 =
     Inr \<lparr>mu = 0, slot_duration_ms = 1, slots_per_subframe = 1,
          slots_per_frame = 10, symbols_per_slot = 14\<rparr>"
    by (simp add: get_slot_params_def mu_map_cases)
  have e: "map_sum id (\<lambda>(t, d). (slots_in_period t, shown_pattern t, guard t, partial t))
        (tdd_page 2 0 9 0 8 15) =
       Inr (2, [''X'', ''F''], Some (- 3), Some ''D9G-3U8'')"
    by code_simp
  from tdd_negative_guard [OF g, of 9 8 2 0 0] e show ?thesis
    using g by simp
qed

text \<open>
  The statement of C3 as the specification has it (a failure with an error instead of a
  pattern for a negative guard) does not hold: with 13 DL and 13 UL symbols, both within
  the range of the page's sliders, the page runs to its end and shows the pattern, with a
  guard of \<open>- 12\<close>.
\<close>

theorem tdd_negative_guard_counterexample:
  "(14::int) < 13 + 13
   \<and> map_sum id (\<lambda>(t, d). (slots_in_period t, shown_pattern t, guard t, partial t))
        (tdd_page 5 7 13 2 13 30) =
       Inr (10, [''D'', ''D'', ''D'', ''D'', ''D'', ''D'', ''D'', ''X'', ''U'', ''U''],
            Some (- 12), Some ''D13G-12U13'')"
  by code_simp

text \<open>
  Claim C1, as amended. The page has no check of the period: the slot count is the
  quotient of the periodicity by the slot duration, truncated by \<^verbatim>\<open>int\<close>. For every
  supported subcarrier spacing and every quotient that is at least 1, whole or not, the
  page does not fail: the slot count is the floor of the quotient, it is at least 1, the
  pattern is built, the pattern shown has exactly that many slots, and the resource
  distribution is computed.
\<close>

theorem tdd_period_truncated:
  assumes "get_slot_params scs_tdd = Inr params_tdd"
    and "1 \<le> p / slot_duration_ms params_tdd"
  shows "\<exists>t d. tdd_page p num_dl_slots num_dl_symbols num_ul_slots num_ul_symbols
                  scs_tdd = Inr (t, d)
           \<and> tdd_configuration p num_dl_slots num_dl_symbols num_ul_slots num_ul_symbols
                  scs_tdd = Inr t
           \<and> slots_in_period t = \<lfloor>p / slot_duration_ms params_tdd\<rfloor>
           \<and> 1 \<le> slots_in_period t
           \<and> int (length (shown_pattern t)) = slots_in_period t"
proof -
  let ?n = "py_int (p / slot_duration_ms params_tdd)"
  have n: "?n = \<lfloor>p / slot_duration_ms params_tdd\<rfloor>" "1 \<le> ?n"
    using py_int_ge_one [OF assms(2)] by blast+
  obtain t where t: "tdd_configuration p num_dl_slots num_dl_symbols num_ul_slots
      num_ul_symbols scs_tdd = Inr t" "slots_in_period t = ?n"
    "?n \<le> int (length (slot_pattern t))"
    unfolding tdd_configuration_result [OF assms(1)] by simp
  have l: "int (length (shown_pattern t)) = slots_in_period t"
    unfolding shown_pattern_def using t(2,3) n(2) by (simp add: length_py_take)
  from n(2) t(2) obtain d where
    "resource_distribution (slots_in_period t) num_dl_slots num_dl_symbols
       num_ul_slots num_ul_symbols = Inr d"
    by (auto simp: resource_distribution_def Let_def)
  with t n l show ?thesis by (simp add: tdd_page_def)
qed

theorem tdd_period_truncated_witness:
  "get_slot_params 30 =
     Inr \<lparr>mu = 1, slot_duration_ms = 1 / 2, slots_per_subframe = 2,
          slots_per_frame = 20, symbols_per_slot = 14\<rparr>
   \<and> (1::rat) \<le> (5 / 4) / (1 / 2)
   \<and> \<not> integral ((5 / 4) / (1 / 2))
   \<and> tdd_configuration (5 / 4) 1 0 1 0 30 =
       Inr \<lparr>slots_in_period = 2, slot_pattern = [''D'', ''U''],
            guard = None, partial = None\<rparr>
   \<and> \<lfloor>(5 / 4) / (1 / 2) :: rat\<rfloor> = 2"
proof -
  have g: "get_slot_params 30 =
     Inr \<lparr>mu = 1, slot_duration_ms = 1 / 2, slots_per_subframe = 2,
          slots_per_frame = 20, symbols_per_slot = 14\<rparr>"
    by (simp add: get_slot_params_def mu_map_cases)
  have e: "tdd_configuration (5 / 4) 1 0 1 0 30 =
       Inr \<lparr>slots_in_period = 2, slot_pattern = [''D'', ''U''],
            guard = None, partial = None\<rparr>"
    by code_simp
  have i: "\<not> integral ((5 / 4) / (1 / 2))" by code_simp
  have h: "(1::rat) \<le> (5 / 4) / (1 / 2)" by simp
  from tdd_period_truncated [OF g, of "5 / 4" 1 0 1 0] e h
  have "\<lfloor>(5 / 4) / (1 / 2) :: rat\<rfloor> = 2" by simp
  with g e i h show ?thesis by simp
qed

text \<open>
  The statement of C1 as the specification has it (a failure with an error and no pattern
  whenever the quotient is not a positive whole number) does not hold: for a periodicity of
  0.625 ms at 30 kHz the quotient is 1.25, the slot count is 1 and the pattern is built;
  the page shows its first slot.
\<close>

theorem tdd_period_counterexample:
  "get_slot_params 30 =
     Inr \<lparr>mu = 1, slot_duration_ms = 1 / 2, slots_per_subframe = 2,
          slots_per_frame = 20, symbols_per_slot = 14\<rparr>
   \<and> \<not> integral ((5 / 8) / (1 / 2))
   \<and> tdd_configuration (5 / 8) 7 10 2 2 30 =
       Inr \<lparr>slots_in_period = 1,
            slot_pattern = [''D'', ''D'', ''D'', ''D'', ''D'', ''D'', ''D'', ''X'', ''U'', ''U''],
            guard = Some 2,
            partial = Some ''D10G2U2''\<rparr>
   \<and> shown_pattern \<lparr>slots_in_period = 1,
            slot_pattern = [''D'', ''D'', ''D'', ''D'', ''D'', ''D'', ''D'', ''X'', ''U'', ''U''],
            guard = Some 2,
            partial = Some ''D10G2U2''\<rparr> = [''D'']"
  by code_simp

text \<open>
  Claim C8, as amended. Let the slot count be positive, the numbers of slots non-negative,
  the numbers of symbols of the partial slot between 0 and 14, and let the \<^verbatim>\<open>D\<close>, \<^verbatim>\<open>X\<close> and
  \<^verbatim>\<open>U\<close> slots fit into the period. Then the page shows the whole pattern. The DL and the UL
  percentage are the float quotients \<^verbatim>\<open>100 * c / (14 * slots)\<close> for the symbols \<open>c\<close> counted
  on the pattern: 14 for each full \<^verbatim>\<open>D\<close> (respectively \<^verbatim>\<open>U\<close>) slot plus the DL (respectively
  UL) symbols of the \<^verbatim>\<open>X\<close> slot. The third percentage, which the page labels
  Guard/Flexible, is the float remainder \<^verbatim>\<open>100 - dl_pct - ul_pct\<close>. Before rounding, that
  remainder is the percentage of the guard symbols of the \<^verbatim>\<open>X\<close> slot plus 14 symbols for
  every \<^verbatim>\<open>F\<close> padding slot; the value the page reports differs from it by the rounding of
  the four float operations, at most \<open>1 / 2 ^ 44\<close>.
\<close>

theorem tdd_percentages:
  assumes "get_slot_params scs_tdd = Inr params_tdd"
    and "0 \<le> num_dl_slots" "0 \<le> num_ul_slots" "0 \<le> num_dl_symbols" "0 \<le> num_ul_symbols"
    and "num_dl_symbols \<le> 14" "num_ul_symbols \<le> 14"
    and "0 < py_int (p / slot_duration_ms params_tdd)"
    and "num_dl_slots + (if 0 < num_dl_symbols \<or> 0 < num_ul_symbols then 1 else 0)
           + num_ul_slots \<le> py_int (p / slot_duration_ms params_tdd)"
  shows "\<exists>t d. tdd_page p num_dl_slots num_dl_symbols num_ul_slots num_ul_symbols
                  scs_tdd = Inr (t, d)
           \<and> shown_pattern t = slot_pattern t
           \<and> dl_pct d = py_float (percent_of (counted_dl (slot_pattern t) num_dl_symbols)
                                     (slots_in_period t))
           \<and> ul_pct d = py_float (percent_of (counted_ul (slot_pattern t) num_ul_symbols)
                                     (slots_in_period t))
           \<and> guard_pct d = float_sub (float_sub 100 (dl_pct d)) (ul_pct d)
           \<and> 100 - percent_of (counted_dl (slot_pattern t) num_dl_symbols) (slots_in_period t)
                  - percent_of (counted_ul (slot_pattern t) num_ul_symbols) (slots_in_period t)
               = percent_of (counted_guard (slot_pattern t) num_dl_symbols num_ul_symbols
                             + 14 * int (count_list (slot_pattern t) ''F''))
                   (slots_in_period t)
           \<and> \<bar>guard_pct d
                - percent_of (counted_guard (slot_pattern t) num_dl_symbols num_ul_symbols
                              + 14 * int (count_list (slot_pattern t) ''F''))
                    (slots_in_period t)\<bar> \<le> 1 / 2 ^ 44"
proof -
  let ?n = "py_int (p / slot_duration_ms params_tdd)"
  let ?x = "if 0 < num_dl_symbols \<or> 0 < num_ul_symbols then 1 else (0::int)"
  let ?pat = "replicate (nat num_dl_slots) ''D''
            @ (if 0 < num_dl_symbols \<or> 0 < num_ul_symbols then [''X''] else [])
            @ replicate (nat num_ul_slots) ''U''
            @ replicate (nat (?n - (int (nat num_dl_slots) + ?x + int (nat num_ul_slots)))) ''F''"
  obtain t where t: "tdd_configuration p num_dl_slots num_dl_symbols num_ul_slots
      num_ul_symbols scs_tdd = Inr t" "slots_in_period t = ?n" "slot_pattern t = ?pat"
    unfolding tdd_configuration_result [OF assms(1)] by simp
  let ?a = "num_dl_slots * 14 + num_dl_symbols" and ?b = "num_ul_slots * 14 + num_ul_symbols"
  from assms(8) t(2) have "slots_in_period t \<noteq> 0" by simp
  from tdd_page_result [OF t(1) this] obtain d where
    page: "tdd_page p num_dl_slots num_dl_symbols num_ul_slots num_ul_symbols scs_tdd
             = Inr (t, d)"
    and rd: "resource_distribution ?n num_dl_slots num_dl_symbols num_ul_slots
               num_ul_symbols = Inr d"
    unfolding t(2) by blast
  from rd assms(8) have d: "dl_pct d = py_float (percent_of ?a ?n)"
    "ul_pct d = py_float (percent_of ?b ?n)"
    "guard_pct d = float_sub (float_sub 100 (py_float (percent_of ?a ?n)))
                     (py_float (percent_of ?b ?n))"
    unfolding resource_distribution_percent by auto
  have cD: "int (count_list ?pat ''D'') = num_dl_slots"
    and cU: "int (count_list ?pat ''U'') = num_ul_slots"
    and cX: "int (count_list ?pat ''X'') = ?x"
    and cF: "int (count_list ?pat ''F'') = ?n - num_dl_slots - ?x - num_ul_slots"
    using assms(2,3,9) by (simp_all add: count_list_replicate)
  have len: "int (length ?pat) = ?n"
    using assms(2,3,9) by simp
  have "length (slot_pattern t) = nat ?n"
    unfolding t(3) using len by linarith
  then have shown: "shown_pattern t = slot_pattern t"
    using assms(8) by (simp add: shown_pattern_def py_take_def t(2))
  have zero: "?x = 0 \<Longrightarrow> num_dl_symbols = 0 \<and> num_ul_symbols = 0"
    using assms(4,5) by (auto split: if_splits)
  have a: "counted_dl ?pat num_dl_symbols = ?a"
    unfolding counted_dl_def cD cX using zero by (auto split: if_splits)
  have b: "counted_ul ?pat num_ul_symbols = ?b"
    unfolding counted_ul_def cU cX using zero by (auto split: if_splits)
  have g: "counted_guard ?pat num_dl_symbols num_ul_symbols + 14 * int (count_list ?pat ''F'')
           = 14 * ?n - ?a - ?b"
    unfolding counted_guard_def cF cX using zero by (auto split: if_splits)
  have ab: "0 \<le> ?a" "0 \<le> ?b" "?a \<le> 14 * ?n" "?b \<le> 14 * ?n"
    using assms(2-7,9) zero by (auto split: if_splits)
  have ex: "100 - percent_of ?a ?n - percent_of ?b ?n = percent_of (14 * ?n - ?a - ?b) ?n"
    using remainder_percent [of ?n ?a ?b] assms(8) by simp
  have pa: "0 \<le> percent_of ?a ?n" "percent_of ?a ?n \<le> 100"
    and pb: "0 \<le> percent_of ?b ?n" "percent_of ?b ?n \<le> 100"
    using percent_of_bounds [of ?n ?a] percent_of_bounds [of ?n ?b] ab assms(8) by blast+
  have err: "\<bar>guard_pct d - percent_of (14 * ?n - ?a - ?b) ?n\<bar> \<le> 1 / 2 ^ 44"
    using remainder_float_error [OF pa pb] unfolding d(3) ex .
  have r1: "dl_pct d = py_float (percent_of (counted_dl (slot_pattern t) num_dl_symbols)
                                     (slots_in_period t))"
    and r2: "ul_pct d = py_float (percent_of (counted_ul (slot_pattern t) num_ul_symbols)
                                     (slots_in_period t))"
    unfolding t(2,3) a b by (rule d(1), rule d(2))
  have r3: "guard_pct d = float_sub (float_sub 100 (dl_pct d)) (ul_pct d)"
    unfolding d(1,2) by (rule d(3))
  have r4: "100 - percent_of (counted_dl (slot_pattern t) num_dl_symbols) (slots_in_period t)
                  - percent_of (counted_ul (slot_pattern t) num_ul_symbols) (slots_in_period t)
               = percent_of (counted_guard (slot_pattern t) num_dl_symbols num_ul_symbols
                             + 14 * int (count_list (slot_pattern t) ''F''))
                   (slots_in_period t)"
    unfolding t(2,3) a b g by (rule ex)
  have r5: "\<bar>guard_pct d
                - percent_of (counted_guard (slot_pattern t) num_dl_symbols num_ul_symbols
                              + 14 * int (count_list (slot_pattern t) ''F''))
                    (slots_in_period t)\<bar> \<le> 1 / 2 ^ 44"
    unfolding t(2,3) g by (rule err)
  from page shown r1 r2 r3 r4 r5 show ?thesis by blast
qed

theorem tdd_percentages_witness:
  "get_slot_params 15 =
     Inr \<lparr>mu = 0, slot_duration_ms = 1, slots_per_subframe = 1,
          slots_per_frame = 10, symbols_per_slot = 14\<rparr>
   \<and> (0::int) < py_int (1 / 1)
   \<and> (0::int) + 1 + 0 \<le> py_int (1 / 1)
   \<and> tdd_page 1 0 5 0 9 15 =
       Inr (\<lparr>slots_in_period = 1, slot_pattern = [''X''],
             guard = Some 0, partial = Some ''D5G0U9''\<rparr>,
            \<lparr>total_dl_symbols = 5, total_ul_symbols = 9, total_symbols = 14,
             dl_pct = 5026338869833143 / 140737488355328,
             ul_pct = 4523704982849829 / 70368744177664,
             guard_pct = - 1 / 70368744177664\<rparr>)
   \<and> percent_of (counted_guard [''X''] 5 9 + 14 * int (count_list [''X''] ''F'')) 1 = 0
   \<and> \<bar>- 1 / 70368744177664 - (0::rat)\<bar> \<le> 1 / 2 ^ 44"
proof -
  have g: "get_slot_params 15 =
     Inr \<lparr>mu = 0, slot_duration_ms = 1, slots_per_subframe = 1,
          slots_per_frame = 10, symbols_per_slot = 14\<rparr>"
    by (simp add: get_slot_params_def mu_map_cases)
  have n: "py_int (1 / 1) = 1" by (simp add: py_int_def)
  have e: "tdd_page 1 0 5 0 9 15 =
       Inr (\<lparr>slots_in_period = 1, slot_pattern = [''X''],
             guard = Some 0, partial = Some ''D5G0U9''\<rparr>,
            \<lparr>total_dl_symbols = 5, total_ul_symbols = 9, total_symbols = 14,
             dl_pct = 5026338869833143 / 140737488355328,
             ul_pct = 4523704982849829 / 70368744177664,
             guard_pct = - 1 / 70368744177664\<rparr>)"
    by code_simp
  have c: "percent_of (counted_guard [''X''] 5 9 + 14 * int (count_list [''X''] ''F'')) 1 = 0"
    by (simp add: percent_of_def counted_guard_def)
  from tdd_percentages [OF g, of 0 0 5 9 1] n e c
  have "\<bar>- 1 / 70368744177664 - (0::rat)\<bar> \<le> 1 / 2 ^ 44"
    by auto
  with g n e c show ?thesis by simp
qed

text \<open>
  The statement of C8 as the specification has it (\<^verbatim>\<open>F\<close> slots contribute no guard
  symbols) does not hold: for 10 slots with 3 DL slots, the split 10 / 2 / 2 and 2 UL slots
  the pattern has 4 \<^verbatim>\<open>F\<close> slots and the guard symbols counted on the pattern are 2 of 140,
  a percentage below 2; the page reports the float nearest to \<open>290 / 7\<close>, above 41.
\<close>

theorem tdd_percentages_counterexample:
  "tdd_page 5 3 10 2 2 30 =
     Inr (\<lparr>slots_in_period = 10,
           slot_pattern = [''D'', ''D'', ''D'', ''X'', ''U'', ''U'', ''F'', ''F'', ''F'', ''F''],
           guard = Some 2, partial = Some ''D10G2U2''\<rparr>,
          \<lparr>total_dl_symbols = 52, total_ul_symbols = 30, total_symbols = 140,
           dl_pct = 5227392424626469 / 140737488355328,
           ul_pct = 6031606643799771 / 281474976710656,
           guard_pct = 2915276544503223 / 70368744177664\<rparr>)
   \<and> py_float (percent_of (counted_guard
          [''D'', ''D'', ''D'', ''X'', ''U'', ''U'', ''F'', ''F'', ''F'', ''F''] 10 2) 10)
       = 6433713753386423 / 4503599627370496
   \<and> (41 :: rat) < 2915276544503223 / 70368744177664
   \<and> (6433713753386423 / 4503599627370496 :: rat) < 2"
  by code_simp

end
